theory Spec2Isabelle
  imports Main "HOL-Library.Char_ord" "HOL-Library.List_Lexorder" "HOL-Library.Sublist"
    "HOL-Library.AList" "HOL-Library.Multiset"
begin

section \<open>The reference backend of libgit2 (src/refs.c)\<close>

text \<open>
  A shallow embedding of \<^verbatim>\<open>src/refs.c\<close>. A C string is the list of its bytes
  before the terminating NUL; a file buffer is the list of all its bytes. Functions that
  return an error code return a sum, \<open>Inl\<close> carrying the code. The repository object, the
  file system, the object database and the packed cache are fields of one state record
  that every stateful function takes and returns.
\<close>

subsection \<open>Error codes\<close>

text \<open>
  The negative return codes the file uses. The functions already moved to the
  \<^verbatim>\<open>giterr_set\<close> style return \<open>-1\<close> after recording a message; each such site has
  a constructor of its own here, named after the message.
\<close>

datatype git_error =
    GIT_ENOTFOUND
  | GIT_EOBJCORRUPTED
  | GIT_EPACKEDREFSCORRUPTED
  | GIT_EINVALIDREFNAME
  | GIT_EEXISTS
  | GIT_EOSERR
  | GIT_ENOTOID
  | GITERR_TOO_NESTED
  | GITERR_NOT_DIRECT
  | GITERR_NOT_SYMBOLIC
  | GITERR_TARGET_MISSING
  | ASSERTION_FAILED

subsection \<open>String helpers of the C library and of util.c\<close>

text \<open>
  \<^verbatim>\<open>strcmp\<close> compares as unsigned bytes; only the sign of its result is specified, so
  the model returns \<open>-1\<close>, \<open>0\<close> or \<open>1\<close>.
\<close>

fun strcmp :: "string \<Rightarrow> string \<Rightarrow> int" where
  "strcmp [] [] = 0"
| "strcmp [] (b # bs) = -1"
| "strcmp (a # as) [] = 1"
| "strcmp (a # as) (b # bs) =
     (if a = b then strcmp as bs
      else if (of_char a :: nat) < of_char b then -1 else 1)"

text \<open>
  Modelled from the spec: \<^verbatim>\<open>git__prefixcmp\<close> is defined in \<^verbatim>\<open>util.c\<close>, outside the
  sources; the specification uses it as "begins with". \<^verbatim>\<open>git__prefixcmp(str, prefix)\<close>
  walks both strings and returns 0 when the prefix is exhausted first, the difference of
  the first differing bytes otherwise (only compared with 0 in this file).
\<close>

fun git__prefixcmp :: "string \<Rightarrow> string \<Rightarrow> int" where
  "git__prefixcmp str [] = 0"
| "git__prefixcmp [] (p # ps) = - int (of_char p)"
| "git__prefixcmp (s # ss) (p # ps) =
     (if s = p then git__prefixcmp ss ps else int (of_char s) - int (of_char p))"

text \<open>
  Modelled from the spec: \<^verbatim>\<open>git__suffixcmp\<close> is defined in \<^verbatim>\<open>util.c\<close>, outside the
  sources; the specification uses it as "ends with the literal suffix".
  \<^verbatim>\<open>git__suffixcmp(str, suffix)\<close> is \<open>-1\<close> when \<open>str\<close> is the shorter, else
  \<^verbatim>\<open>strcmp(str + (a - b), suffix)\<close>.
\<close>

definition git__suffixcmp :: "string \<Rightarrow> string \<Rightarrow> int" where
  "git__suffixcmp str suf =
     (if length str < length suf then -1
      else strcmp (drop (length str - length suf) str) suf)"

text \<open>\<^verbatim>\<open>strchr(s, c)\<close> on a NUL-terminated buffer: the suffix that starts at the first
  \<open>c\<close>, or \<open>None\<close> (NULL) when the terminator, or a NUL byte inside, comes first.\<close>

fun strchr :: "string \<Rightarrow> char \<Rightarrow> string option" where
  "strchr [] c = None"
| "strchr (x # xs) c =
     (if x = c then Some (x # xs)
      else if x = CHR 0x00 then None
      else strchr xs c)"

text \<open>\<^verbatim>\<open>memchr(s, c, n)\<close> over the \<open>n\<close> bytes of \<open>s\<close>: the offset of the first
  \<open>c\<close>, or \<open>None\<close>.\<close>

fun memchr :: "string \<Rightarrow> char \<Rightarrow> nat option" where
  "memchr [] c = None"
| "memchr (x # xs) c =
     (if x = c then Some 0
      else (case memchr xs c of None \<Rightarrow> None | Some k \<Rightarrow> Some (Suc k)))"

text \<open>The bytes of a buffer read as a C string: everything before the first NUL.\<close>

definition cstr :: "string \<Rightarrow> string" where
  "cstr bytes = takeWhile (\<lambda>c. c \<noteq> CHR 0x00) bytes"

subsection \<open>Constants of refs.h\<close>

text \<open>
  Modelled from the spec: the header \<^verbatim>\<open>refs.h\<close> that defines these macros is not part
  of the sources; the values are the ones the specification gives for the file layout
  (\<^verbatim>\<open>refs/\<close>, \<^verbatim>\<open>refs/tags/\<close>, \<^verbatim>\<open>HEAD\<close>, \<^verbatim>\<open>MERGE_HEAD\<close>,
  \<^verbatim>\<open>FETCH_HEAD\<close>, \<^verbatim>\<open>packed-refs\<close>, the \<^verbatim>\<open>ref: \<close> prefix, the
  \<^verbatim>\<open>.lock\<close> suffix and the packed header line).
\<close>

definition GIT_REFS_DIR :: string where "GIT_REFS_DIR = ''refs/''"
definition GIT_REFS_TAGS_DIR :: string where "GIT_REFS_TAGS_DIR = ''refs/tags/''"
definition GIT_HEAD_FILE :: string where "GIT_HEAD_FILE = ''HEAD''"
definition GIT_MERGE_HEAD_FILE :: string where "GIT_MERGE_HEAD_FILE = ''MERGE_HEAD''"
definition GIT_FETCH_HEAD_FILE :: string where "GIT_FETCH_HEAD_FILE = ''FETCH_HEAD''"
definition GIT_PACKEDREFS_FILE :: string where "GIT_PACKEDREFS_FILE = ''packed-refs''"
definition GIT_PACKEDREFS_HEADER :: string where
  "GIT_PACKEDREFS_HEADER = ''# pack-refs with: peeled ''"
definition GIT_SYMREF :: string where "GIT_SYMREF = ''ref: ''"
definition GIT_FILELOCK_EXTENSION :: string where "GIT_FILELOCK_EXTENSION = ''.lock''"
definition GIT_OID_HEXSZ :: nat where "GIT_OID_HEXSZ = 40"
definition GIT_REFNAME_MAX :: nat where "GIT_REFNAME_MAX = 1024"
definition MAX_NESTING_LEVEL :: nat where "MAX_NESTING_LEVEL = 5"

lemmas refs_constants =
  GIT_REFS_DIR_def GIT_REFS_TAGS_DIR_def GIT_HEAD_FILE_def GIT_MERGE_HEAD_FILE_def
  GIT_FETCH_HEAD_FILE_def GIT_PACKEDREFS_FILE_def GIT_PACKEDREFS_HEADER_def GIT_SYMREF_def
  GIT_FILELOCK_EXTENSION_def GIT_OID_HEXSZ_def GIT_REFNAME_MAX_def MAX_NESTING_LEVEL_def

subsection \<open>Name normalization\<close>

text \<open>\<^verbatim>\<open>is_valid_ref_char\<close>: \<^verbatim>\<open>(unsigned) ch <= ' '\<close> rejects the bytes up to 0x20
  (a byte above 0x7f is large as an unsigned value whatever the signedness of
  \<^verbatim>\<open>char\<close>); the switch rejects seven punctuation characters.\<close>

definition is_valid_ref_char :: "char \<Rightarrow> bool" where
  "is_valid_ref_char ch =
     (if (of_char ch :: nat) \<le> 32 then False
      else if ch = CHR ''~'' \<or> ch = CHR ''^'' \<or> ch = CHR '':'' \<or> ch = CHR 0x5C
              \<or> ch = CHR ''?'' \<or> ch = CHR ''['' \<or> ch = CHR ''*'' then False
      else True)"

text \<open>
  The copy loop of \<^verbatim>\<open>normalize_name\<close>. \<open>cur\<close> is the input from \<^verbatim>\<open>current\<close> to
  \<^verbatim>\<open>name_end\<close>, \<open>out\<close> the bytes written so far (\<^verbatim>\<open>buffer_out_start\<close> to
  \<^verbatim>\<open>buffer_out\<close>), so \<^verbatim>\<open>prev\<close> is \<open>last out\<close>. The loop returns the output,
  what is left of \<^verbatim>\<open>out_size\<close> and \<^verbatim>\<open>contains_a_slash\<close>.
\<close>

fun normalize_loop ::
  "string \<Rightarrow> string \<Rightarrow> nat \<Rightarrow> bool \<Rightarrow> git_error + (string \<times> nat \<times> bool)" where
  "normalize_loop [] out out_size contains_a_slash = Inr (out, out_size, contains_a_slash)"
| "normalize_loop (c # cur) out out_size contains_a_slash =
     (if out_size = 0 then Inr (out, out_size, contains_a_slash)
      else if \<not> is_valid_ref_char c then Inl GIT_EINVALIDREFNAME
      else if out \<noteq> [] \<and> c = CHR ''.'' \<and> (last out = CHR ''.'' \<or> last out = CHR ''/'')
        then Inl GIT_EINVALIDREFNAME
      else if out \<noteq> [] \<and> c = CHR ''{'' \<and> last out = CHR ''@''
        then Inl GIT_EINVALIDREFNAME
      else if out \<noteq> [] \<and> c = CHR ''/'' \<and> last out = CHR ''/''
        then normalize_loop cur out out_size contains_a_slash
      else normalize_loop cur (out @ [c]) (out_size - 1) (contains_a_slash \<or> c = CHR ''/''))"

text \<open>\<^verbatim>\<open>out_size--\<close> on a \<^verbatim>\<open>size_t\<close>: zero wraps to \<^verbatim>\<open>SIZE_MAX\<close> (64 bits).\<close>

definition size_t_dec :: "nat \<Rightarrow> nat" where
  "size_t_dec n = (if n = 0 then 2 ^ 64 - 1 else n - 1)"

text \<open>
  \<^verbatim>\<open>normalize_name(buffer_out, out_size, name, is_oid_ref)\<close>; the result is the content
  of \<^verbatim>\<open>buffer_out\<close>. The checks stand in the order of the source; the last one is the
  source's condition \<^verbatim>\<open>!(git__prefixcmp(..) || strcmp(..))\<close> as written.
\<close>

definition normalize_name :: "nat \<Rightarrow> string \<Rightarrow> bool \<Rightarrow> git_error + string" where
  "normalize_name out_size name is_oid_ref =
     (if name = [] then Inl GIT_EINVALIDREFNAME
      else if last name = CHR ''.'' \<or> last name = CHR ''/'' then Inl GIT_EINVALIDREFNAME
      else
        (case normalize_loop name [] (size_t_dec out_size) False of
           Inl e \<Rightarrow> Inl e
         | Inr (out, left, contains_a_slash) \<Rightarrow>
             if left = 0 then Inl GIT_EINVALIDREFNAME
             else if is_oid_ref \<and> \<not> contains_a_slash
                     \<and> strcmp name GIT_HEAD_FILE \<noteq> 0
                     \<and> strcmp name GIT_MERGE_HEAD_FILE \<noteq> 0
                     \<and> strcmp name GIT_FETCH_HEAD_FILE \<noteq> 0
               then Inl GIT_EINVALIDREFNAME
             else if git__suffixcmp name GIT_FILELOCK_EXTENSION = 0
               then Inl GIT_EINVALIDREFNAME
             else if is_oid_ref
                     \<and> \<not> (git__prefixcmp out GIT_REFS_DIR \<noteq> 0 \<or> strcmp out GIT_HEAD_FILE \<noteq> 0)
               then Inl GIT_EINVALIDREFNAME
             else Inr out))"

subsection \<open>Object identifiers\<close>

text \<open>
  Modelled from the spec: the type \<^verbatim>\<open>git_oid\<close> and its two conversions live in
  \<^verbatim>\<open>oid.c\<close>, outside the sources. An OID is "a fixed 20-byte value, serialized as 40
  lowercase hex characters": the list of its bytes. \<^verbatim>\<open>git_oid_fromstr\<close> reads 40 hex
  digits (either case) and fails with \<^verbatim>\<open>GIT_ENOTOID\<close> on any other byte, the buffer's
  terminating NUL included; \<^verbatim>\<open>git_oid_fmt\<close> writes the 40 lowercase digits.
\<close>

type_synonym git_oid = "nat list"

definition from_hex :: "char \<Rightarrow> int" where
  "from_hex c =
     (let n = (of_char c :: nat) in
      if 48 \<le> n \<and> n \<le> 57 then int n - 48
      else if 97 \<le> n \<and> n \<le> 102 then int n - 87
      else if 65 \<le> n \<and> n \<le> 70 then int n - 55
      else -1)"

fun oid_bytes :: "string \<Rightarrow> git_error + git_oid" where
  "oid_bytes (a # b # rest) =
     (if from_hex a < 0 \<or> from_hex b < 0 then Inl GIT_ENOTOID
      else (case oid_bytes rest of
              Inl e \<Rightarrow> Inl e
            | Inr bs \<Rightarrow> Inr (nat (16 * from_hex a + from_hex b) # bs)))"
| "oid_bytes [a] = Inl GIT_ENOTOID"
| "oid_bytes [] = Inr []"

definition git_oid_fromstr :: "string \<Rightarrow> git_error + git_oid" where
  "git_oid_fromstr str =
     (if length str < GIT_OID_HEXSZ then Inl GIT_ENOTOID
      else oid_bytes (take GIT_OID_HEXSZ str))"

definition to_hex :: "nat \<Rightarrow> char" where
  "to_hex n = ''0123456789abcdef'' ! (n mod 16)"

definition git_oid_fmt :: "git_oid \<Rightarrow> string" where
  "git_oid_fmt oid = concat (map (\<lambda>b. [to_hex (b div 16), to_hex b]) oid)"

text \<open>The bytes of a \<^verbatim>\<open>git_oid\<close> that \<^verbatim>\<open>git__malloc\<close> returned and nothing wrote
  yet; the code reads a peel only behind \<^verbatim>\<open>GIT_PACKREF_HAS_PEEL\<close>.\<close>

definition uninitialized_oid :: git_oid where
  "uninitialized_oid = []"

subsection \<open>The collaborators: file system, object database, atomic writer\<close>

text \<open>
  Modelled from the spec: the file-system utilities (\<^verbatim>\<open>fileops.c\<close>, \<^verbatim>\<open>path.c\<close>,
  \<^verbatim>\<open>filebuf.c\<close>, \<^verbatim>\<open>buffer.c\<close>) and the object database are named interfaces
  outside the sources. The file system is an association list from the path handed to the
  system call to the file's modification time and bytes, in directory order; only regular
  files are recorded. Allocation failures are not modelled. Failures of the operating
  system are decided by the fault predicates of the state.
\<close>

record git_file =
  st_mtime :: int
  file_data :: string

datatype git_otype = GIT_OBJ_COMMIT | GIT_OBJ_TREE | GIT_OBJ_BLOB | GIT_OBJ_TAG

record git_object =
  object_type :: git_otype
  tag_target_oid :: git_oid

text \<open>What was done to the file system, in order: a file committed into place with its
  bytes, a file unlinked.\<close>

datatype fs_event = FS_COMMIT string string | FS_UNLINK string

datatype packref_flag = GIT_PACKREF_HAS_PEEL | GIT_PACKREF_WAS_LOOSE

text \<open>\<^verbatim>\<open>struct packref\<close>; \<^verbatim>\<open>flags\<close> is the set of the bits that are on.\<close>

record packref =
  pk_oid :: git_oid
  pk_peel :: git_oid
  pk_flags :: "packref_flag set"
  pk_name :: string

text \<open>
  The repository with its reference cache (\<^verbatim>\<open>repo->references\<close>) and the world it
  lives in. \<open>packfile\<close> is the hash table of packed entries, \<open>None\<close> while the pointer
  is NULL; an entry holds its own key (\<^verbatim>\<open>ref->name\<close>), so the table is the list of
  its entries in iteration order.
\<close>

record git_repository =
  path_repository :: string
  packfile :: "packref list option"
  packfile_time :: int
  files :: "(string \<times> git_file) list"
  objects :: "git_oid \<rightharpoonup> git_object"
  clock :: int
  open_fails :: "string \<Rightarrow> bool"
  write_fails :: "string \<Rightarrow> bool"
  commit_fails :: "string \<Rightarrow> bool"
  unlink_fails :: "string \<Rightarrow> bool"
  events :: "fs_event list"

text \<open>Modelled from the spec: the "path join" of \<^verbatim>\<open>buffer.c\<close>.
  \<^verbatim>\<open>git_buf_joinpath(buf, a, b)\<close>: with a non-empty \<open>a\<close>, the leading separators of \<open>b\<close>
  are dropped and one separator is put between the two unless \<open>a\<close> ends with it.\<close>

definition git_buf_joinpath :: "string \<Rightarrow> string \<Rightarrow> string" where
  "git_buf_joinpath a b =
     (if a = [] then b
      else (if last a = CHR ''/'' then a else a @ ''/'') @ dropWhile (\<lambda>c. c = CHR ''/'') b)"

text \<open>Modelled from the spec: \<^verbatim>\<open>git_path_exists\<close>, \<^verbatim>\<open>git_path_isfile\<close> ("a loose file
  exists at the path") and \<^verbatim>\<open>p_unlink\<close>, which removes the file, or fails and leaves
  it.\<close>

definition git_path_exists :: "git_repository \<Rightarrow> string \<Rightarrow> bool" where
  "git_path_exists repo path = (map_of (files repo) path \<noteq> None)"

definition git_path_isfile :: "git_repository \<Rightarrow> string \<Rightarrow> bool" where
  "git_path_isfile repo path = (map_of (files repo) path \<noteq> None)"

definition p_unlink :: "git_repository \<Rightarrow> string \<Rightarrow> (git_error + unit) \<times> git_repository" where
  "p_unlink repo path =
     (if unlink_fails repo path \<or> map_of (files repo) path = None then (Inl GIT_EOSERR, repo)
      else (Inr (), repo\<lparr>files := AList.delete path (files repo),
                          events := events repo @ [FS_UNLINK path]\<rparr>))"

text \<open>
  Modelled from the spec: \<^verbatim>\<open>git_futils_readbuffer_updated(buf, path, mtime, updated)\<close>
  of \<^verbatim>\<open>fileops.c\<close>, the read-with-mtime primitive ("if the file's mtime equals the
  handle's previously recorded mtime, the in-memory target is kept; otherwise the file is
  re-parsed"). An absent file is \<^verbatim>\<open>GIT_ENOTFOUND\<close>. When a recorded time is given and
  equals the file's, nothing is read and \<^verbatim>\<open>updated\<close> is 0; otherwise the result is
  the bytes, the file's time (stored through \<^verbatim>\<open>mtime\<close> by a caller that passed one) and
  \<^verbatim>\<open>updated = 1\<close>.
\<close>

definition git_futils_readbuffer_updated ::
  "git_repository \<Rightarrow> string \<Rightarrow> int option \<Rightarrow> git_error + (string \<times> int \<times> bool)" where
  "git_futils_readbuffer_updated repo path mtime =
     (case map_of (files repo) path of
        None \<Rightarrow> Inl GIT_ENOTFOUND
      | Some f \<Rightarrow>
          (case mtime of
             None \<Rightarrow> Inr (file_data f, st_mtime f, True)
           | Some t \<Rightarrow>
               if t = st_mtime f then Inr ([], t, False)
               else Inr (file_data f, st_mtime f, True)))"

text \<open>Modelled from the spec: the atomic writer of \<^verbatim>\<open>filebuf.c\<close> ("write to a sibling
  lock file then atomically rename into place"): a buffer that is opened for a path,
  printed into, and committed or cleaned up. The lock file is its own business.\<close>

record git_filebuf =
  fb_path :: string
  fb_data :: string

definition git_filebuf_open :: "git_repository \<Rightarrow> string \<Rightarrow> git_error + git_filebuf" where
  "git_filebuf_open repo path =
     (if open_fails repo path then Inl GIT_EOSERR
      else Inr \<lparr>fb_path = path, fb_data = []\<rparr>)"

definition git_filebuf_printf ::
  "git_repository \<Rightarrow> git_filebuf \<Rightarrow> string \<Rightarrow> git_error + git_filebuf" where
  "git_filebuf_printf repo file str =
     (if write_fails repo (fb_path file) then Inl GIT_EOSERR
      else Inr (file\<lparr>fb_data := fb_data file @ str\<rparr>))"

definition git_filebuf_commit ::
  "git_repository \<Rightarrow> git_filebuf \<Rightarrow> (git_error + unit) \<times> git_repository" where
  "git_filebuf_commit repo file =
     (if commit_fails repo (fb_path file) then (Inl GIT_EOSERR, repo)
      else (Inr (),
            repo\<lparr>files := AList.update (fb_path file)
                              \<lparr>st_mtime = clock repo, file_data = fb_data file\<rparr> (files repo),
                 events := events repo @ [FS_COMMIT (fb_path file) (fb_data file)]\<rparr>))"

text \<open>Modelled from the spec: the "directory recursive iterator"
  \<^verbatim>\<open>git_path_direach\<close> of \<^verbatim>\<open>path.c\<close>, from a directory down, the callbacks
  recursing into subdirectories: the regular files below the directory, in directory
  order.\<close>

definition files_below :: "git_repository \<Rightarrow> string \<Rightarrow> string list" where
  "files_below repo dir = filter (prefix dir) (map fst (files repo))"

text \<open>Modelled from the spec: the hash table of \<^verbatim>\<open>hashtable.c\<close> ("a mapping from
  ref name to packed entry, keys unique, key comparison byte-exact"), keyed by
  \<^verbatim>\<open>ref->name\<close> with \<^verbatim>\<open>git_hash__strcmp_cb\<close>: lookup, and insert, which replaces an
  entry of the same key.\<close>

definition git_hashtable_lookup :: "packref list \<Rightarrow> string \<Rightarrow> packref option" where
  "git_hashtable_lookup tbl key = find (\<lambda>r. strcmp (pk_name r) key = 0) tbl"

definition git_hashtable_insert :: "packref list \<Rightarrow> packref \<Rightarrow> packref list" where
  "git_hashtable_insert tbl ref =
     filter (\<lambda>r. strcmp (pk_name r) (pk_name ref) \<noteq> 0) tbl @ [ref]"

subsection \<open>Reference handles\<close>

text \<open>\<^verbatim>\<open>git_rtype\<close>: the kind a getter reports and the bits of \<^verbatim>\<open>ref->flags\<close>
  (\<open>ref_flags\<close> is the set of the bits that are on; \<^verbatim>\<open>GIT_REF_INVALID\<close> is 0, no
  bit).\<close>

datatype git_rtype =
  GIT_REF_INVALID | GIT_REF_OID | GIT_REF_SYMBOLIC | GIT_REF_PACKED | GIT_REF_HAS_PEEL

text \<open>The union \<^verbatim>\<open>ref->target\<close>: all zero after \<^verbatim>\<open>memset\<close>, or the member
  written last (\<^verbatim>\<open>symbolic\<close> is a pointer, \<open>None\<close> when NULL).\<close>

datatype ref_target =
  TARGET_ZERO | TARGET_OID git_oid | TARGET_SYMBOLIC "string option"

record git_reference =
  ref_name :: string
  ref_flags :: "git_rtype set"
  ref_target :: ref_target
  ref_mtime :: int

text \<open>Reading a member of the union. Reading the member that was not written last
  reinterprets the bytes; the model gives the zero value then.\<close>

fun target_oid :: "ref_target \<Rightarrow> git_oid" where
  "target_oid (TARGET_OID oid) = oid"
| "target_oid TARGET_ZERO = replicate 20 0"
| "target_oid (TARGET_SYMBOLIC p) = replicate 20 0"

fun target_symbolic :: "ref_target \<Rightarrow> string option" where
  "target_symbolic (TARGET_SYMBOLIC p) = p"
| "target_symbolic TARGET_ZERO = None"
| "target_symbolic (TARGET_OID oid) = None"

definition reference_alloc :: "string \<Rightarrow> git_reference" where
  "reference_alloc name =
     \<lparr>ref_name = name, ref_flags = {}, ref_target = TARGET_ZERO, ref_mtime = 0\<rparr>"

definition reference_read ::
  "git_repository \<Rightarrow> string \<Rightarrow> string \<Rightarrow> int option \<Rightarrow> git_error + (string \<times> int \<times> bool)" where
  "reference_read repo repo_path name mtime =
     git_futils_readbuffer_updated repo (git_buf_joinpath repo_path name) mtime"

subsection \<open>Loose references\<close>

text \<open>The byte a pointer into a NUL-terminated buffer reads: the terminator at the
  end.\<close>

definition peek :: "string \<Rightarrow> char" where
  "peek buf = (case buf of [] \<Rightarrow> CHR 0x00 | c # _ \<Rightarrow> c)"

text \<open>
  \<^verbatim>\<open>loose_parse_symbolic\<close>: the target is the \<^verbatim>\<open>git__strdup\<close> of the bytes after
  the header, cut at the first newline and at a carriage return right before it. With an
  empty target \<^verbatim>\<open>eol[-1]\<close> is the byte before the allocation, taken not to be a
  carriage return. A handle is not read after a failure, so a failure returns no handle.
\<close>

definition loose_parse_symbolic :: "git_reference \<Rightarrow> string \<Rightarrow> git_error + git_reference" where
  "loose_parse_symbolic ref file_content =
     (let header_len = length GIT_SYMREF in
      if length file_content < header_len + 1 then Inl GIT_EOBJCORRUPTED
      else
        (let symbolic = cstr (drop header_len file_content) in
         case memchr symbolic (CHR 0x0A) of
           None \<Rightarrow> Inl GIT_EOBJCORRUPTED
         | Some eol \<Rightarrow>
             Inr (ref\<lparr>ref_target := TARGET_SYMBOLIC (Some
                   (if 0 < eol \<and> symbolic ! (eol - 1) = CHR 0x0D
                    then take (eol - 1) symbolic else take eol symbolic))\<rparr>)))"

definition loose_parse_oid :: "string \<Rightarrow> git_error + git_oid" where
  "loose_parse_oid file_content =
     (if length file_content < GIT_OID_HEXSZ + 1 then Inl GIT_EOBJCORRUPTED
      else
        (case git_oid_fromstr file_content of
           Inl e \<Rightarrow> Inl GIT_EOBJCORRUPTED
         | Inr oid \<Rightarrow>
             (let buffer = drop GIT_OID_HEXSZ file_content;
                  buffer = (if peek buffer = CHR 0x0D then tl buffer else buffer)
              in if peek buffer \<noteq> CHR 0x0A then Inl GIT_EOBJCORRUPTED else Inr oid)))"

definition loose_lookup :: "git_repository \<Rightarrow> git_reference \<Rightarrow> git_error + git_reference" where
  "loose_lookup repo ref =
     (case reference_read repo (path_repository repo) (ref_name ref) (Some (ref_mtime ref)) of
        Inl e \<Rightarrow> Inl GIT_ENOTFOUND
      | Inr (data, mtime, updated) \<Rightarrow>
          (let ref = ref\<lparr>ref_mtime := mtime\<rparr> in
           if \<not> updated then Inr ref
           else
             (let ref = (if GIT_REF_SYMBOLIC \<in> ref_flags ref
                         then ref\<lparr>ref_target := TARGET_SYMBOLIC None\<rparr> else ref);
                  ref = ref\<lparr>ref_flags := {}\<rparr>
              in if git__prefixcmp data GIT_SYMREF = 0
                 then loose_parse_symbolic
                        (ref\<lparr>ref_flags := insert GIT_REF_SYMBOLIC (ref_flags ref)\<rparr>) data
                 else
                   (case loose_parse_oid data of
                      Inl e \<Rightarrow> Inl e
                    | Inr oid \<Rightarrow>
                        Inr (ref\<lparr>ref_flags := insert GIT_REF_OID (ref_flags ref),
                                  ref_target := TARGET_OID oid\<rparr>)))))"

definition loose_lookup_to_packfile :: "git_repository \<Rightarrow> string \<Rightarrow> git_error + packref" where
  "loose_lookup_to_packfile repo name =
     (case reference_read repo (path_repository repo) name None of
        Inl e \<Rightarrow> Inl e
      | Inr (data, mtime, updated) \<Rightarrow>
          (case loose_parse_oid data of
             Inl e \<Rightarrow> Inl e
           | Inr oid \<Rightarrow>
               Inr \<lparr>pk_oid = oid, pk_peel = uninitialized_oid,
                    pk_flags = {GIT_PACKREF_WAS_LOOSE}, pk_name = name\<rparr>))"

text \<open>
  \<^verbatim>\<open>loose_write\<close>. In the direct branch a failed print unlocks and returns; in the
  symbolic branch the result of the print is not tested. The handle's time is taken from
  a \<^verbatim>\<open>p_stat\<close> of the path before the commit.
\<close>

definition loose_write ::
  "git_repository \<Rightarrow> git_reference \<Rightarrow> (git_error + git_reference) \<times> git_repository" where
  "loose_write repo ref =
     (let ref_path = git_buf_joinpath (path_repository repo) (ref_name ref) in
      case git_filebuf_open repo ref_path of
        Inl e \<Rightarrow> (Inl e, repo)
      | Inr file \<Rightarrow>
          (let printed =
                 (if GIT_REF_OID \<in> ref_flags ref
                  then git_filebuf_printf repo file
                         (git_oid_fmt (target_oid (ref_target ref)) @ [CHR 0x0A])
                  else if GIT_REF_SYMBOLIC \<in> ref_flags ref
                  then (case git_filebuf_printf repo file
                               (GIT_SYMREF @ case_option [] id (target_symbolic (ref_target ref))
                                  @ [CHR 0x0A]) of
                          Inl e \<Rightarrow> Inr file
                        | Inr file' \<Rightarrow> Inr file')
                  else Inl GIT_EOBJCORRUPTED)
           in case printed of
                Inl e \<Rightarrow> (Inl e, repo)
              | Inr file \<Rightarrow>
                  (let ref = (case map_of (files repo) ref_path of
                                None \<Rightarrow> ref
                              | Some st \<Rightarrow> ref\<lparr>ref_mtime := st_mtime st\<rparr>)
                   in case git_filebuf_commit repo file of
                        (Inl e, repo') \<Rightarrow> (Inl e, repo')
                      | (Inr u, repo') \<Rightarrow> (Inr ref, repo'))))"

subsection \<open>Packed references: the parser\<close>

text \<open>
  A pointer that walks the packed-refs buffer is the list of the bytes from it to
  \<^verbatim>\<open>buffer_end\<close>. \<^verbatim>\<open>packed_parse_oid\<close> returns the new entry and the advanced
  pointer; the entry's name is the C string made of the bytes copied. Offsets are counted
  from \<^verbatim>\<open>refname_begin\<close>: \<open>nl\<close> is where \<^verbatim>\<open>memchr\<close> finds the line feed, and
  \<^verbatim>\<open>refname_end\<close> is \<open>nl\<close>, or \<open>nl - 1\<close> after the decrement on a carriage return
  (at offset 0 the byte before is the space just tested). The pointer handed back is
  \<^verbatim>\<open>refname_end + 1\<close>, taken after the decrement: behind a line ended by CR LF it is
  left on the line feed.
\<close>

definition packed_parse_oid :: "string \<Rightarrow> git_error + (packref \<times> string)" where
  "packed_parse_oid buffer =
     (if GIT_OID_HEXSZ + 1 \<ge> length buffer \<or> buffer ! GIT_OID_HEXSZ \<noteq> CHR '' ''
      then Inl GIT_EPACKEDREFSCORRUPTED
      else
        (case git_oid_fromstr buffer of
           Inl e \<Rightarrow> Inl e
         | Inr oid \<Rightarrow>
             (let refname_begin = drop (GIT_OID_HEXSZ + 1) buffer in
              case memchr refname_begin (CHR 0x0A) of
                None \<Rightarrow> Inl GIT_EPACKEDREFSCORRUPTED
              | Some nl \<Rightarrow>
                  (let refname_end =
                         (if 0 < nl \<and> refname_begin ! (nl - 1) = CHR 0x0D
                          then nl - 1 else nl);
                       refname_len = refname_end
                   in Inr (\<lparr>pk_oid = oid, pk_peel = uninitialized_oid, pk_flags = {},
                             pk_name = cstr (take refname_len refname_begin)\<rparr>,
                           drop (refname_end + 1) refname_begin)))))"

text \<open>\<^verbatim>\<open>packed_parse_peel\<close>; \<open>buffer\<close> starts at the caret. The peel is stored in the
  entry; the source sets no flag here.\<close>

definition packed_parse_peel ::
  "packref option \<Rightarrow> string \<Rightarrow> git_error + (packref \<times> string)" where
  "packed_parse_peel tag_ref buffer_out =
     (let buffer = tl buffer_out in
      case tag_ref of
        None \<Rightarrow> Inl GIT_EPACKEDREFSCORRUPTED
      | Some tag \<Rightarrow>
          if git__prefixcmp (pk_name tag) GIT_REFS_TAGS_DIR \<noteq> 0
            then Inl GIT_EPACKEDREFSCORRUPTED
          else if GIT_OID_HEXSZ \<ge> length buffer then Inl GIT_EPACKEDREFSCORRUPTED
          else
            (case git_oid_fromstr buffer of
               Inl e \<Rightarrow> Inl GIT_EPACKEDREFSCORRUPTED
             | Inr oid \<Rightarrow>
                 (let buffer = drop GIT_OID_HEXSZ buffer;
                      buffer = (if peek buffer = CHR 0x0D then tl buffer else buffer)
                  in if peek buffer \<noteq> CHR 0x0A then Inl GIT_EPACKEDREFSCORRUPTED
                     else Inr (tag\<lparr>pk_peel := oid\<rparr>, tl buffer))))"

lemma strchr_Some_length:
  "strchr buf c = Some nl \<Longrightarrow> nl \<noteq> [] \<and> length nl \<le> length buf"
  by (induction buf) (auto split: if_splits)

text \<open>The first loop of \<^verbatim>\<open>packed_load\<close>: skip the comment lines; \<open>None\<close> when a
  comment line has no newline.\<close>

function skip_comments :: "string \<Rightarrow> string option" where
  "skip_comments buffer_start =
     (if buffer_start \<noteq> [] \<and> hd buffer_start = CHR ''#''
      then (case strchr buffer_start (CHR 0x0A) of
              None \<Rightarrow> None
            | Some nl \<Rightarrow> skip_comments (tl nl))
      else Some buffer_start)"
  by pat_completeness auto
termination
proof (relation "measure length")
  show "wf (measure length)" by simp
next
  fix buffer_start :: string and nl
  assume "strchr buffer_start (CHR 0x0A) = Some nl"
  from strchr_Some_length[OF this] show "(tl nl, buffer_start) \<in> measure length"
    by (cases nl) auto
qed

lemma memchr_Some_less: "memchr xs c = Some k \<Longrightarrow> k < length xs"
  by (induction xs arbitrary: k) (auto split: if_splits option.splits)

lemma packed_parse_oid_shorter:
  "packed_parse_oid buffer = Inr (ref, rest) \<Longrightarrow> length rest < length buffer"
  by (auto simp: packed_parse_oid_def Let_def GIT_OID_HEXSZ_def
      split: if_splits sum.splits option.splits dest!: memchr_Some_less)

lemma packed_parse_peel_shorter:
  "packed_parse_peel tag buffer = Inr (ref, rest) \<Longrightarrow> length rest < length buffer"
  by (auto simp: packed_parse_peel_def Let_def GIT_OID_HEXSZ_def
      split: if_splits sum.splits option.splits)

text \<open>The second loop of \<^verbatim>\<open>packed_load\<close>, filling the table.\<close>

function packed_parse_entries :: "string \<Rightarrow> packref list \<Rightarrow> git_error + packref list" where
  "packed_parse_entries buffer_start tbl =
     (if buffer_start = [] then Inr tbl
      else
        (case packed_parse_oid buffer_start of
           Inl e \<Rightarrow> Inl e
         | Inr (ref, buffer_start') \<Rightarrow>
             (case (if peek buffer_start' = CHR ''^''
                    then packed_parse_peel (Some ref) buffer_start'
                    else Inr (ref, buffer_start')) of
                Inl e \<Rightarrow> Inl e
              | Inr (ref', buffer_start'') \<Rightarrow>
                  packed_parse_entries buffer_start'' (git_hashtable_insert tbl ref'))))"
  by pat_completeness auto
termination
proof (relation "measure (\<lambda>(b, t). length b)")
  show "wf (measure (\<lambda>(b, t). length b))" by simp
next
  fix buffer_start :: string and tbl :: "packref list" and b x y ba xa ya
  assume a: "packed_parse_oid buffer_start = Inr b" "(x, y) = b"
    and c: "(if peek y = CHR ''^'' then packed_parse_peel (Some x) y else Inr (x, y)) = Inr ba"
           "(xa, ya) = ba"
  from a have "length y < length buffer_start"
    using packed_parse_oid_shorter[of buffer_start x y] by simp
  moreover from c have "length ya \<le> length y"
    using packed_parse_peel_shorter[of "Some x" y xa ya]
    by (auto split: if_splits)
  ultimately show "((ya, git_hashtable_insert tbl xa), buffer_start, tbl)
      \<in> measure (\<lambda>(b, t). length b)"
    by simp
qed

subsection \<open>Packed references: the cache\<close>

text \<open>
  \<^verbatim>\<open>packed_load\<close>. The table is allocated when the pointer is NULL. A missing file
  empties the table; an unchanged time leaves it. Otherwise the table is emptied and
  filled from the buffer; on any parse error (label \<^verbatim>\<open>cleanup\<close>) the table is freed and
  the pointer set to NULL. \<^verbatim>\<open>reference_read\<close> has stored the file's time by then.
\<close>

definition packed_load :: "git_repository \<Rightarrow> (git_error + unit) \<times> git_repository" where
  "packed_load repo =
     (let repo = (if packfile repo = None then repo\<lparr>packfile := Some []\<rparr> else repo) in
      case reference_read repo (path_repository repo) GIT_PACKEDREFS_FILE
             (Some (packfile_time repo)) of
        Inl e \<Rightarrow>
          if e = GIT_ENOTFOUND then (Inr (), repo\<lparr>packfile := Some []\<rparr>)
          else (Inl e, repo)
      | Inr (data, mtime, updated) \<Rightarrow>
          (let repo = repo\<lparr>packfile_time := mtime\<rparr> in
           if \<not> updated then (Inr (), repo)
           else
             (case skip_comments data of
                None \<Rightarrow> (Inl GIT_EPACKEDREFSCORRUPTED, repo\<lparr>packfile := None\<rparr>)
              | Some buffer_start \<Rightarrow>
                  (case packed_parse_entries buffer_start [] of
                     Inl e \<Rightarrow> (Inl e, repo\<lparr>packfile := None\<rparr>)
                   | Inr tbl \<Rightarrow> (Inr (), repo\<lparr>packfile := Some tbl\<rparr>)))))"

text \<open>The entries of the cache; a NULL table has none. Every caller below reads the
  table after \<^verbatim>\<open>packed_load\<close> succeeded, when it is not NULL.\<close>

definition packfile_entries :: "git_repository \<Rightarrow> packref list" where
  "packfile_entries repo = (case packfile repo of None \<Rightarrow> [] | Some tbl \<Rightarrow> tbl)"

definition packed_lookup ::
  "git_repository \<Rightarrow> git_reference \<Rightarrow> (git_error + git_reference) \<times> git_repository" where
  "packed_lookup repo ref =
     (case packed_load repo of
        (Inl e, repo) \<Rightarrow> (Inl e, repo)
      | (Inr u, repo) \<Rightarrow>
          if GIT_REF_PACKED \<in> ref_flags ref \<and> ref_mtime ref = packfile_time repo
            then (Inr ref, repo)
          else
            (let ref = (if GIT_REF_SYMBOLIC \<in> ref_flags ref
                        then ref\<lparr>ref_target := TARGET_SYMBOLIC None\<rparr> else ref)
             in case git_hashtable_lookup (packfile_entries repo) (ref_name ref) of
                  None \<Rightarrow> (Inl GIT_ENOTFOUND, repo)
                | Some pack_ref \<Rightarrow>
                    (Inr (ref\<lparr>ref_flags := {GIT_REF_OID, GIT_REF_PACKED},
                              ref_mtime := packfile_time repo,
                              ref_target := TARGET_OID (pk_oid pack_ref)\<rparr>), repo)))"

subsection \<open>Lookup\<close>

text \<open>
  \<^verbatim>\<open>reference_lookup\<close>. After both stores answered \<^verbatim>\<open>GIT_ENOTFOUND\<close> the source
  frees the handle and tests \<^verbatim>\<open>error_loose\<close> and \<^verbatim>\<open>error_packed\<close>, names it no
  longer declares; they are read as the two results above them.
\<close>

definition reference_lookup ::
  "git_repository \<Rightarrow> git_reference \<Rightarrow> (git_error + git_reference) \<times> git_repository" where
  "reference_lookup repo ref =
     (case loose_lookup repo ref of
        Inr ref' \<Rightarrow> (Inr ref', repo)
      | Inl error_loose \<Rightarrow>
          if error_loose \<noteq> GIT_ENOTFOUND then (Inl error_loose, repo)
          else
            (case packed_lookup repo ref of
               (Inr ref', repo) \<Rightarrow> (Inr ref', repo)
             | (Inl error_packed, repo) \<Rightarrow>
                 if error_packed \<noteq> GIT_ENOTFOUND then (Inl error_packed, repo)
                 else if error_loose \<noteq> GIT_ENOTFOUND then (Inl error_loose, repo)
                 else if error_packed \<noteq> GIT_ENOTFOUND then (Inl error_packed, repo)
                 else (Inl GIT_ENOTFOUND, repo)))"

definition git_reference_lookup ::
  "git_repository \<Rightarrow> string \<Rightarrow> (git_error + git_reference) \<times> git_repository" where
  "git_reference_lookup repo name =
     (case normalize_name GIT_REFNAME_MAX name False of
        Inl e \<Rightarrow> (Inl e, repo)
      | Inr normalized_name \<Rightarrow> reference_lookup repo (reference_alloc normalized_name))"

subsection \<open>Getters\<close>

definition git_reference_type :: "git_reference \<Rightarrow> git_rtype" where
  "git_reference_type ref =
     (if GIT_REF_OID \<in> ref_flags ref then GIT_REF_OID
      else if GIT_REF_SYMBOLIC \<in> ref_flags ref then GIT_REF_SYMBOLIC
      else GIT_REF_INVALID)"

definition git_reference_is_packed :: "git_reference \<Rightarrow> bool" where
  "git_reference_is_packed ref = (GIT_REF_PACKED \<in> ref_flags ref)"

definition git_reference_name :: "git_reference \<Rightarrow> string" where
  "git_reference_name ref = ref_name ref"

text \<open>\<^verbatim>\<open>git_reference_oid\<close> returns NULL or the address of the union, whose content
  the caller reads as an OID; \<^verbatim>\<open>git_reference_target\<close> returns NULL or the pointer
  the union holds, which is NULL itself while the union is zero.\<close>

definition git_reference_oid :: "git_reference \<Rightarrow> ref_target option" where
  "git_reference_oid ref =
     (if GIT_REF_OID \<notin> ref_flags ref then None else Some (ref_target ref))"

definition git_reference_target :: "git_reference \<Rightarrow> ref_target option" where
  "git_reference_target ref =
     (if GIT_REF_SYMBOLIC \<notin> ref_flags ref then None
      else (case ref_target ref of
              TARGET_ZERO \<Rightarrow> None
            | TARGET_SYMBOLIC None \<Rightarrow> None
            | t \<Rightarrow> Some t))"

subsection \<open>Existence, creation, update\<close>

text \<open>\<^verbatim>\<open>reference_exists\<close>; the table is asked for \<^verbatim>\<open>ref_path.ptr\<close>, as in the
  source.\<close>

definition reference_exists ::
  "git_repository \<Rightarrow> string \<Rightarrow> (git_error + bool) \<times> git_repository" where
  "reference_exists repo name =
     (case packed_load repo of
        (Inl e, repo) \<Rightarrow> (Inl e, repo)
      | (Inr u, repo) \<Rightarrow>
          (let ref_path = git_buf_joinpath (path_repository repo) name in
           if git_path_isfile repo ref_path
              \<or> git_hashtable_lookup (packfile_entries repo) ref_path \<noteq> None
           then (Inr True, repo)
           else (Inr False, repo)))"

definition git_reference_set_oid ::
  "git_repository \<Rightarrow> git_reference \<Rightarrow> git_oid
     \<Rightarrow> (git_error + git_reference) \<times> git_repository" where
  "git_reference_set_oid repo ref oid =
     (if GIT_REF_OID \<notin> ref_flags ref then (Inl GITERR_NOT_DIRECT, repo)
      else if objects repo oid = None then (Inl GITERR_TARGET_MISSING, repo)
      else loose_write repo (ref\<lparr>ref_target := TARGET_OID oid\<rparr>))"

definition git_reference_set_target ::
  "git_repository \<Rightarrow> git_reference \<Rightarrow> string
     \<Rightarrow> (git_error + git_reference) \<times> git_repository" where
  "git_reference_set_target repo ref target =
     (if GIT_REF_SYMBOLIC \<notin> ref_flags ref then (Inl GITERR_NOT_SYMBOLIC, repo)
      else
        (case normalize_name GIT_REFNAME_MAX target False of
           Inl e \<Rightarrow> (Inl e, repo)
         | Inr normalized \<Rightarrow>
             loose_write repo (ref\<lparr>ref_target := TARGET_SYMBOLIC (Some normalized)\<rparr>)))"

text \<open>\<^verbatim>\<open>git_reference_create_symbolic\<close> allocates the handle for \<^verbatim>\<open>normalized\<close>.\<close>

definition git_reference_create_symbolic ::
  "git_repository \<Rightarrow> string \<Rightarrow> string \<Rightarrow> bool
     \<Rightarrow> (git_error + git_reference) \<times> git_repository" where
  "git_reference_create_symbolic repo name target force =
     (case normalize_name GIT_REFNAME_MAX name False of
        Inl e \<Rightarrow> (Inl e, repo)
      | Inr normalized \<Rightarrow>
          (case reference_exists repo normalized of
             (Inl e, repo) \<Rightarrow> (Inl e, repo)
           | (Inr exists, repo) \<Rightarrow>
               if exists \<and> \<not> force then (Inl GIT_EEXISTS, repo)
               else
                 (let ref = reference_alloc normalized;
                      ref = ref\<lparr>ref_flags := insert GIT_REF_SYMBOLIC (ref_flags ref)\<rparr>
                  in git_reference_set_target repo ref target)))"

text \<open>\<^verbatim>\<open>git_reference_create_oid\<close> allocates the handle for \<^verbatim>\<open>name\<close>, the
  argument, as the source does.\<close>

definition git_reference_create_oid ::
  "git_repository \<Rightarrow> string \<Rightarrow> git_oid \<Rightarrow> bool
     \<Rightarrow> (git_error + git_reference) \<times> git_repository" where
  "git_reference_create_oid repo name oid force =
     (case normalize_name GIT_REFNAME_MAX name True of
        Inl e \<Rightarrow> (Inl e, repo)
      | Inr normalized \<Rightarrow>
          (case reference_exists repo normalized of
             (Inl e, repo) \<Rightarrow> (Inl e, repo)
           | (Inr exists, repo) \<Rightarrow>
               if exists \<and> \<not> force then (Inl GIT_EEXISTS, repo)
               else
                 (let ref = reference_alloc name;
                      ref = ref\<lparr>ref_flags := insert GIT_REF_OID (ref_flags ref)\<rparr>
                  in git_reference_set_oid repo ref oid)))"

subsection \<open>Resolution\<close>

text \<open>
  The loop of \<^verbatim>\<open>git_reference_resolve\<close>; \<open>left\<close> counts the iterations that remain
  (\<^verbatim>\<open>MAX_NESTING_LEVEL - i\<close>). A NULL \<^verbatim>\<open>ref->target.symbolic\<close> fails the assertion
  at the head of \<^verbatim>\<open>git_reference_lookup\<close>.
\<close>

fun resolve_loop ::
  "nat \<Rightarrow> git_repository \<Rightarrow> git_reference \<Rightarrow> (git_error + git_reference) \<times> git_repository" where
  "resolve_loop 0 repo ref = (Inl GITERR_TOO_NESTED, repo)"
| "resolve_loop (Suc left) repo ref =
     (case target_symbolic (ref_target ref) of
        None \<Rightarrow> (Inl ASSERTION_FAILED, repo)
      | Some symbolic \<Rightarrow>
          (case git_reference_lookup repo symbolic of
             (Inl e, repo) \<Rightarrow> (Inl e, repo)
           | (Inr new_ref, repo) \<Rightarrow>
               if GIT_REF_OID \<in> ref_flags new_ref then (Inr new_ref, repo)
               else resolve_loop left repo new_ref))"

definition git_reference_resolve ::
  "git_repository \<Rightarrow> git_reference \<Rightarrow> (git_error + git_reference) \<times> git_repository" where
  "git_reference_resolve repo ref =
     (if GIT_REF_OID \<in> ref_flags ref then git_reference_lookup repo (ref_name ref)
      else resolve_loop MAX_NESTING_LEVEL repo ref)"

subsection \<open>The packer\<close>

text \<open>\<^verbatim>\<open>_dirent_loose_load\<close> on a regular file: the entry read from the loose file
  replaces the one of the same name (\<^verbatim>\<open>git_hashtable_insert2\<close>).\<close>

definition dirent_loose_load ::
  "git_repository \<Rightarrow> string \<Rightarrow> (git_error + unit) \<times> git_repository" where
  "dirent_loose_load repo full_path =
     (let file_path = drop (length (path_repository repo)) full_path in
      case loose_lookup_to_packfile repo file_path of
        Inl e \<Rightarrow> (Inl e, repo)
      | Inr ref \<Rightarrow>
          (Inr (), repo\<lparr>packfile := Some (git_hashtable_insert (packfile_entries repo) ref)\<rparr>))"

text \<open>\<^verbatim>\<open>git_path_direach\<close> with that callback: it stops at the first error.\<close>

fun direach_loose_load ::
  "string list \<Rightarrow> git_repository \<Rightarrow> (git_error + unit) \<times> git_repository" where
  "direach_loose_load [] repo = (Inr (), repo)"
| "direach_loose_load (full_path # rest) repo =
     (case dirent_loose_load repo full_path of
        (Inl e, repo) \<Rightarrow> (Inl e, repo)
      | (Inr u, repo) \<Rightarrow> direach_loose_load rest repo)"

definition packed_loadloose :: "git_repository \<Rightarrow> (git_error + unit) \<times> git_repository" where
  "packed_loadloose repo =
     (if packfile repo = None then (Inl ASSERTION_FAILED, repo)
      else
        (let refs_path = git_buf_joinpath (path_repository repo) GIT_REFS_DIR in
         direach_loose_load (files_below repo refs_path) repo))"

text \<open>\<^verbatim>\<open>packed_write_ref\<close>: one line, and the peel line behind
  \<^verbatim>\<open>GIT_PACKREF_HAS_PEEL\<close>.\<close>

definition packed_write_ref ::
  "git_repository \<Rightarrow> packref \<Rightarrow> git_filebuf \<Rightarrow> git_error + git_filebuf" where
  "packed_write_ref repo ref file =
     (let oid = git_oid_fmt (pk_oid ref) in
      if GIT_PACKREF_HAS_PEEL \<in> pk_flags ref
      then (let peel = git_oid_fmt (pk_peel ref) in
            git_filebuf_printf repo file
              (oid @ '' '' @ pk_name ref @ [CHR 0x0A] @ ''^'' @ peel @ [CHR 0x0A]))
      else git_filebuf_printf repo file (oid @ '' '' @ pk_name ref @ [CHR 0x0A]))"

definition packed_find_peel :: "git_repository \<Rightarrow> packref \<Rightarrow> git_error + packref" where
  "packed_find_peel repo ref =
     (if GIT_PACKREF_HAS_PEEL \<in> pk_flags ref then Inr ref
      else if git__prefixcmp (pk_name ref) GIT_REFS_TAGS_DIR \<noteq> 0 then Inr ref
      else
        (case objects repo (pk_oid ref) of
           None \<Rightarrow> Inl GIT_EOBJCORRUPTED
         | Some object \<Rightarrow>
             if object_type object = GIT_OBJ_TAG
             then Inr (ref\<lparr>pk_peel := tag_target_oid object,
                           pk_flags := insert GIT_PACKREF_HAS_PEEL (pk_flags ref)\<rparr>)
             else Inr ref))"

text \<open>
  \<^verbatim>\<open>packed_remove_loose\<close>: the sweep goes on after a failed unlink; \<open>error\<close> is the
  code kept so far (\<^verbatim>\<open>GIT_EOSERR\<close> is the only one an iteration produces here).
\<close>

fun packed_remove_loose ::
  "packref list \<Rightarrow> git_error + unit \<Rightarrow> git_repository \<Rightarrow> (git_error + unit) \<times> git_repository" where
  "packed_remove_loose [] error repo = (error, repo)"
| "packed_remove_loose (ref # rest) error repo =
     (if GIT_PACKREF_WAS_LOOSE \<notin> pk_flags ref then packed_remove_loose rest error repo
      else
        (let full_path = git_buf_joinpath (path_repository repo) (pk_name ref) in
         if git_path_exists repo full_path
         then (case p_unlink repo full_path of
                 (Inl e, repo) \<Rightarrow> packed_remove_loose rest (Inl GIT_EOSERR) repo
               | (Inr u, repo) \<Rightarrow> packed_remove_loose rest error repo)
         else packed_remove_loose rest error repo))"

definition packed_sort :: "packref \<Rightarrow> packref \<Rightarrow> int" where
  "packed_sort ref_a ref_b = strcmp (pk_name ref_a) (pk_name ref_b)"

text \<open>
  Modelled from the spec: \<^verbatim>\<open>git_vector_sort\<close> (\<^verbatim>\<open>vector.c\<close>, outside the sources)
  sorts the vector with the comparison function it was initialised with; here by
  insertion, an element going before the first one it does not compare greater than.
\<close>

fun vector_insert :: "('a \<Rightarrow> 'a \<Rightarrow> int) \<Rightarrow> 'a \<Rightarrow> 'a list \<Rightarrow> 'a list" where
  "vector_insert cmp x [] = [x]"
| "vector_insert cmp x (y # ys) =
     (if cmp x y \<le> 0 then x # y # ys else y # vector_insert cmp x ys)"

definition git_vector_sort :: "('a \<Rightarrow> 'a \<Rightarrow> int) \<Rightarrow> 'a list \<Rightarrow> 'a list" where
  "git_vector_sort cmp v = foldr (vector_insert cmp) v []"

text \<open>
  The loop of \<^verbatim>\<open>packed_write\<close> over the packing list: peel, then print. The vector
  holds pointers to the entries of the table, so a peel found is stored in the cache as
  well; the loop returns the entries as they are when it ends, the file buffer or the
  error.
\<close>

fun packed_write_loop ::
  "git_repository \<Rightarrow> packref list \<Rightarrow> git_filebuf
     \<Rightarrow> (git_error + git_filebuf) \<times> packref list" where
  "packed_write_loop repo [] file = (Inr file, [])"
| "packed_write_loop repo (ref # rest) file =
     (case packed_find_peel repo ref of
        Inl e \<Rightarrow> (Inl GIT_EOBJCORRUPTED, ref # rest)
      | Inr ref' \<Rightarrow>
          (case packed_write_ref repo ref' file of
             Inl e \<Rightarrow> (Inl e, ref' # rest)
           | Inr file' \<Rightarrow>
               (case packed_write_loop repo rest file' of
                  (r, rest') \<Rightarrow> (r, ref' # rest'))))"

text \<open>An entry of the table after the loop: the one of the same name in the vector.\<close>

definition table_after :: "packref list \<Rightarrow> packref list \<Rightarrow> packref list" where
  "table_after tbl packing_list =
     map (\<lambda>r. case find (\<lambda>u. pk_name u = pk_name r) packing_list of
                 None \<Rightarrow> r | Some u \<Rightarrow> u) tbl"

text \<open>
  \<^verbatim>\<open>packed_write\<close>. Label \<^verbatim>\<open>cleanup\<close>: with no error so far the file is committed,
  and when and only when the commit succeeded the loose files are removed and the time
  of the cache is set from a \<^verbatim>\<open>p_stat\<close> of the new file; otherwise the file buffer is
  cleaned up.
\<close>

definition packed_write :: "git_repository \<Rightarrow> (git_error + unit) \<times> git_repository" where
  "packed_write repo =
     (case packfile repo of
        None \<Rightarrow> (Inl ASSERTION_FAILED, repo)
      | Some tbl \<Rightarrow>
          (let packing_list = git_vector_sort packed_sort tbl;
               pack_file_path = git_buf_joinpath (path_repository repo) GIT_PACKEDREFS_FILE
           in case git_filebuf_open repo pack_file_path of
                Inl e \<Rightarrow> (Inl e, repo)
              | Inr pack_file \<Rightarrow>
                  (case git_filebuf_printf repo pack_file (GIT_PACKEDREFS_HEADER @ [CHR 0x0A]) of
                     Inl e \<Rightarrow> (Inl e, repo)
                   | Inr pack_file \<Rightarrow>
                       (case packed_write_loop repo packing_list pack_file of
                          (Inl e, packing_list) \<Rightarrow>
                            (Inl e, repo\<lparr>packfile := Some (table_after tbl packing_list)\<rparr>)
                        | (Inr pack_file, packing_list) \<Rightarrow>
                            (let repo = repo\<lparr>packfile := Some (table_after tbl packing_list)\<rparr> in
                             case git_filebuf_commit repo pack_file of
                               (Inl e, repo) \<Rightarrow> (Inl e, repo)
                             | (Inr u, repo) \<Rightarrow>
                                 (case packed_remove_loose packing_list (Inr ()) repo of
                                    (error, repo) \<Rightarrow>
                                      (error,
                                       case map_of (files repo) pack_file_path of
                                         None \<Rightarrow> repo
                                       | Some st \<Rightarrow>
                                           repo\<lparr>packfile_time := st_mtime st\<rparr>)))))))"

definition git_reference_packall :: "git_repository \<Rightarrow> (git_error + unit) \<times> git_repository" where
  "git_reference_packall repo =
     (case packed_load repo of
        (Inl e, repo) \<Rightarrow> (Inl e, repo)
      | (Inr u, repo) \<Rightarrow>
          (case packed_loadloose repo of
             (Inl e, repo) \<Rightarrow> (Inl e, repo)
           | (Inr u, repo) \<Rightarrow>
               (case packed_write repo of
                  (Inl e, repo) \<Rightarrow> (Inl e, repo)
                | (Inr u, repo) \<Rightarrow> (Inr (), repo))))"

subsection \<open>Coherent handles\<close>

text \<open>
  The kind bits and the union of a handle agree: a direct handle is not symbolic as well
  and holds an OID; a symbolic handle holds a target pointer. Every handle the functions
  above return satisfies this (lemmas \<open>git_reference_lookup_coherent\<close> and the ones
  after it).
\<close>

definition reference_coherent :: "git_reference \<Rightarrow> bool" where
  "reference_coherent ref =
     ((GIT_REF_OID \<in> ref_flags ref \<longrightarrow>
         GIT_REF_SYMBOLIC \<notin> ref_flags ref
         \<and> (case ref_target ref of TARGET_OID oid \<Rightarrow> True | _ \<Rightarrow> False))
      \<and> (GIT_REF_SYMBOLIC \<in> ref_flags ref \<longrightarrow>
         (case ref_target ref of TARGET_SYMBOLIC p \<Rightarrow> True | _ \<Rightarrow> False)))"

subsection \<open>Vocabulary of the statements\<close>

text \<open>An OID as the code holds it: twenty bytes.\<close>

definition valid_oid :: "git_oid \<Rightarrow> bool" where
  "valid_oid oid = (length oid = 20 \<and> list_all (\<lambda>b. b < 256) oid)"

text \<open>
  A name in normalized form; a loose file that holds a symbolic reference \<open>n\<close> with
  target \<open>t\<close> (read by a fresh handle, whose recorded time is 0); a chain of symbolic
  references \<open>n\<^sub>1 \<rightarrow> n\<^sub>2 \<rightarrow> \<dots>\<close>, every name normalized; a list of names closed under
  "is a symbolic reference to", which is what a chain that runs into a cycle visits.
\<close>

definition is_normalized :: "string \<Rightarrow> bool" where
  "is_normalized n = (normalize_name GIT_REFNAME_MAX n False = Inr n)"

definition loose_symref :: "git_repository \<Rightarrow> string \<Rightarrow> string \<Rightarrow> bool" where
  "loose_symref repo n t =
     (case map_of (files repo) (git_buf_joinpath (path_repository repo) n) of
        None \<Rightarrow> False
      | Some f \<Rightarrow> st_mtime f \<noteq> 0 \<and> file_data f = GIT_SYMREF @ t @ [CHR 0x0A])"

fun symref_chain :: "git_repository \<Rightarrow> string list \<Rightarrow> bool" where
  "symref_chain repo [] = True"
| "symref_chain repo [n] = is_normalized n"
| "symref_chain repo (n # t # rest) =
     (is_normalized n \<and> loose_symref repo n t \<and> symref_chain repo (t # rest))"

definition symref_closed :: "git_repository \<Rightarrow> string list \<Rightarrow> bool" where
  "symref_closed repo S =
     list_all (\<lambda>n. is_normalized n \<and> list_ex (\<lambda>t. loose_symref repo n t) S) S"

text \<open>
  Two states of the same world: the same repository path, object database, clock and
  fault predicates. Unlinking a list of paths, one after the other. The paths of the
  loose files of the entries flagged \<^verbatim>\<open>GIT_PACKREF_WAS_LOOSE\<close>.
\<close>

definition same_world :: "git_repository \<Rightarrow> git_repository \<Rightarrow> bool" where
  "same_world repo repo' =
     (path_repository repo' = path_repository repo \<and> objects repo' = objects repo
      \<and> clock repo' = clock repo \<and> open_fails repo' = open_fails repo
      \<and> write_fails repo' = write_fails repo \<and> commit_fails repo' = commit_fails repo
      \<and> unlink_fails repo' = unlink_fails repo)"

definition unlink_all :: "string list \<Rightarrow> (string \<times> git_file) list \<Rightarrow> (string \<times> git_file) list" where
  "unlink_all paths fs = foldl (\<lambda>fs p. AList.delete p fs) fs paths"

definition was_loose_paths :: "git_repository \<Rightarrow> packref list \<Rightarrow> string set" where
  "was_loose_paths repo refs =
     set (map (\<lambda>ref. git_buf_joinpath (path_repository repo) (pk_name ref))
            (filter (\<lambda>ref. GIT_PACKREF_WAS_LOOSE \<in> pk_flags ref) refs))"

text \<open>The text \<^verbatim>\<open>packed_write_ref\<close> prints for an entry.\<close>

definition packed_ref_text :: "packref \<Rightarrow> string" where
  "packed_ref_text ref =
     git_oid_fmt (pk_oid ref) @ '' '' @ pk_name ref @ [CHR 0x0A]
     @ (if GIT_PACKREF_HAS_PEEL \<in> pk_flags ref
        then ''^'' @ git_oid_fmt (pk_peel ref) @ [CHR 0x0A] else [])"

subsection \<open>Example repositories\<close>

text \<open>Concrete states on which the theorems below are evaluated: a repository at
  \<^verbatim>\<open>/repo/\<close> with the given files, an empty object database, no cache loaded and no
  failing system call.\<close>

definition example_repo :: "(string \<times> git_file) list \<Rightarrow> git_repository" where
  "example_repo fs =
     \<lparr>path_repository = ''/repo/'', packfile = None, packfile_time = 0, files = fs,
      objects = Map.empty, clock = 100,
      open_fails = (\<lambda>p. False), write_fails = (\<lambda>p. False),
      commit_fails = (\<lambda>p. False), unlink_fails = (\<lambda>p. False), events = []\<rparr>"

definition example_oid :: git_oid where
  "example_oid = replicate 20 170"

definition example_repo_packed_dev :: git_repository where
  "example_repo_packed_dev =
     example_repo
       [(''/repo/packed-refs'',
         \<lparr>st_mtime = 5,
          file_data = ''# pack-refs with: peeled '' @ [CHR 0x0A]
            @ ''1111111111111111111111111111111111111111 refs/heads/dev'' @ [CHR 0x0A]\<rparr>)]"

definition example_repo_with_object :: git_repository where
  "example_repo_with_object =
     (example_repo [])
       \<lparr>objects := [example_oid \<mapsto> \<lparr>object_type = GIT_OBJ_COMMIT, tag_target_oid = []\<rparr>]\<rparr>"

definition example_repo_shadow :: git_repository where
  "example_repo_shadow =
     example_repo
       [(''/repo/packed-refs'',
         \<lparr>st_mtime = 5,
          file_data = ''# pack-refs with: peeled '' @ [CHR 0x0A]
            @ ''1111111111111111111111111111111111111111 refs/heads/dev'' @ [CHR 0x0A]\<rparr>),
        (''/repo/refs/heads/dev'',
         \<lparr>st_mtime = 7,
          file_data = ''aaaaaaaaaaaaaaaaaaaaaaaaaaaaaaaaaaaaaaaa'' @ [CHR 0x0A]\<rparr>)]"

definition example_repo_chains :: git_repository where
  "example_repo_chains =
     example_repo
       [(''/repo/HEAD'', \<lparr>st_mtime = 7, file_data = ''ref: refs/heads/main'' @ [CHR 0x0A]\<rparr>),
        (''/repo/refs/heads/main'',
         \<lparr>st_mtime = 7,
          file_data = ''aaaaaaaaaaaaaaaaaaaaaaaaaaaaaaaaaaaaaaaa'' @ [CHR 0x0A]\<rparr>),
        (''/repo/refs/heads/a'', \<lparr>st_mtime = 7, file_data = ''ref: refs/heads/b'' @ [CHR 0x0A]\<rparr>),
        (''/repo/refs/heads/b'', \<lparr>st_mtime = 7, file_data = ''ref: refs/heads/a'' @ [CHR 0x0A]\<rparr>)]"

definition example_symbolic_handle :: "string \<Rightarrow> git_reference" where
  "example_symbolic_handle target =
     \<lparr>ref_name = ''HEAD'', ref_flags = {GIT_REF_SYMBOLIC},
      ref_target = TARGET_SYMBOLIC (Some target), ref_mtime = 7\<rparr>"




definition example_repo_two_loose :: git_repository where
  "example_repo_two_loose =
     example_repo
       [(''/repo/refs/heads/b'',
         \<lparr>st_mtime = 7,
          file_data = ''bbbbbbbbbbbbbbbbbbbbbbbbbbbbbbbbbbbbbbbb'' @ [CHR 0x0A]\<rparr>),
        (''/repo/refs/heads/a'',
         \<lparr>st_mtime = 7,
          file_data = ''aaaaaaaaaaaaaaaaaaaaaaaaaaaaaaaaaaaaaaaa'' @ [CHR 0x0A]\<rparr>)]"

definition example_repo_commit_fails :: git_repository where
  "example_repo_commit_fails = example_repo_two_loose\<lparr>commit_fails := (\<lambda>p. True)\<rparr>"

definition example_entry :: "nat \<Rightarrow> string \<Rightarrow> packref" where
  "example_entry byte name =
     \<lparr>pk_oid = replicate 20 byte, pk_peel = uninitialized_oid, pk_flags = {}, pk_name = name\<rparr>"

definition example_repo_cached :: git_repository where
  "example_repo_cached =
     (example_repo [])
       \<lparr>packfile := Some [example_entry 187 ''refs/heads/b'', example_entry 170 ''refs/heads/a'']\<rparr>"

section \<open>Properties\<close>

subsection \<open>Facts about the string helpers\<close>

lemma strcmp_eq_0: "strcmp a b = 0 \<longleftrightarrow> a = b"
  by (induction a b rule: strcmp.induct) auto

lemma of_char_eq_0: "(of_char c :: nat) = 0 \<longleftrightarrow> c = CHR 0x00"
proof -
  have "(of_char c :: nat) = of_char (CHR 0x00) \<longleftrightarrow> c = CHR 0x00"
    by (rule of_char_eq_iff)
  then show ?thesis by simp
qed

lemma git__prefixcmp_eq_0:
  "CHR 0x00 \<notin> set p \<Longrightarrow> git__prefixcmp str p = 0 \<longleftrightarrow> prefix p str"
  by (induction str p rule: git__prefixcmp.induct) (auto simp: of_char_eq_0)

lemma git__suffixcmp_eq_0: "git__suffixcmp str suf = 0 \<longleftrightarrow> suffix suf str"
proof -
  have "suffix suf str \<longleftrightarrow> length suf \<le> length str \<and> drop (length str - length suf) str = suf"
    by (metis suffix_drop suffix_length_le suffixE append_eq_conv_conj diff_add_inverse2 length_append)
  then show ?thesis by (auto simp: git__suffixcmp_def strcmp_eq_0)
qed

subsection \<open>The copy loop of normalize_name\<close>

text \<open>One iteration on a non-empty input: the buffer is full, the slash is skipped, or
  the character is copied after its checks.\<close>

lemma normalize_loop_ConsE:
  assumes "normalize_loop (c # cur) out sz sl = Inr r"
  obtains (full) "sz = 0" "r = (out, 0, sl)"
  | (skip) "sz > 0" "out \<noteq> []" "c = CHR ''/''" "last out = CHR ''/''"
      "normalize_loop cur out sz sl = Inr r"
  | (copy) "sz > 0" "\<not> (out \<noteq> [] \<and> c = CHR ''/'' \<and> last out = CHR ''/'')"
      "is_valid_ref_char c"
      "\<not> (out \<noteq> [] \<and> c = CHR ''.'' \<and> (last out = CHR ''.'' \<or> last out = CHR ''/''))"
      "\<not> (out \<noteq> [] \<and> c = CHR ''{'' \<and> last out = CHR ''@'')"
      "normalize_loop cur (out @ [c]) (sz - 1) (sl \<or> c = CHR ''/'') = Inr r"
  using assms by (auto split: if_splits)

lemma normalize_loop_extends:
  "normalize_loop cur out sz sl = Inr (out', sz', sl') \<Longrightarrow> \<exists>ys. out' = out @ ys"
  by (induction cur out sz sl rule: normalize_loop.induct) (auto split: if_splits)

lemma normalize_loop_copy_shape:
  assumes "normalize_loop cur (out @ [c]) sz sl = Inr (out @ ys, sz', sl')"
  obtains zs where "ys = c # zs"
  using normalize_loop_extends[OF assms] by auto

text \<open>Running the loop on its own output gives the same result.\<close>

lemma normalize_loop_replay:
  "normalize_loop cur out sz sl = Inr (out @ ys, sz', sl') \<Longrightarrow>
   normalize_loop ys out sz sl = Inr (out @ ys, sz', sl')"
proof (induction cur arbitrary: out sz sl ys)
  case Nil
  then show ?case by simp
next
  case (Cons c cur)
  from Cons.prems show ?case
  proof (cases rule: normalize_loop_ConsE)
    case full
    then show ?thesis by simp
  next
    case skip
    then show ?thesis using Cons.IH by blast
  next
    case copy
    from copy(6) obtain zs where ys: "ys = c # zs" by (rule normalize_loop_copy_shape)
    with copy(6) have "normalize_loop cur (out @ [c]) (sz - 1) (sl \<or> c = CHR ''/'')
        = Inr ((out @ [c]) @ zs, sz', sl')"
      by simp
    from Cons.IH[OF this] ys copy(1-5) show ?thesis by auto
  qed
qed

lemma normalize_loop_slash:
  "normalize_loop cur out sz sl = Inr (out @ ys, sz', sl') \<Longrightarrow>
   sl' = (sl \<or> CHR ''/'' \<in> set ys)"
proof (induction cur arbitrary: out sz sl ys)
  case Nil
  then show ?case by simp
next
  case (Cons c cur)
  from Cons.prems show ?case
  proof (cases rule: normalize_loop_ConsE)
    case full
    then show ?thesis by simp
  next
    case skip
    then show ?thesis using Cons.IH by blast
  next
    case copy
    from copy(6) obtain zs where ys: "ys = c # zs" by (rule normalize_loop_copy_shape)
    with copy(6) have "normalize_loop cur (out @ [c]) (sz - 1) (sl \<or> c = CHR ''/'')
        = Inr ((out @ [c]) @ zs, sz', sl')"
      by simp
    from Cons.IH[OF this] ys show ?thesis by auto
  qed
qed

lemma normalize_loop_valid:
  "normalize_loop cur out sz sl = Inr (out @ ys, sz', sl') \<Longrightarrow>
   \<forall>c \<in> set ys. is_valid_ref_char c"
proof (induction cur arbitrary: out sz sl ys)
  case Nil
  then show ?case by simp
next
  case (Cons c cur)
  from Cons.prems show ?case
  proof (cases rule: normalize_loop_ConsE)
    case full
    then show ?thesis by simp
  next
    case skip
    then show ?thesis using Cons.IH by blast
  next
    case copy
    from copy(6) obtain zs where ys: "ys = c # zs" by (rule normalize_loop_copy_shape)
    with copy(6) have "normalize_loop cur (out @ [c]) (sz - 1) (sl \<or> c = CHR ''/'')
        = Inr ((out @ [c]) @ zs, sz', sl')"
      by simp
    from Cons.IH[OF this] ys copy(3) show ?thesis by auto
  qed
qed

text \<open>When the buffer was not exhausted, the last character of the input is the last
  character of the output, unless it is a slash.\<close>

lemma normalize_loop_last:
  "normalize_loop cur out sz sl = Inr (out @ ys, sz', sl') \<Longrightarrow> 0 < sz' \<Longrightarrow>
   cur \<noteq> [] \<Longrightarrow> last cur \<noteq> CHR ''/'' \<Longrightarrow> ys \<noteq> [] \<and> last ys = last cur"
proof (induction cur arbitrary: out sz sl ys)
  case Nil
  then show ?case by simp
next
  case (Cons c cur)
  from Cons.prems(1) show ?case
  proof (cases rule: normalize_loop_ConsE)
    case full
    with Cons.prems show ?thesis by simp
  next
    case skip
    with Cons.prems have "cur \<noteq> []" by auto
    with Cons.IH[OF skip(5) Cons.prems(2)] Cons.prems(4) show ?thesis by simp
  next
    case copy
    from copy(6) obtain zs where ys: "ys = c # zs" by (rule normalize_loop_copy_shape)
    with copy(6) have r: "normalize_loop cur (out @ [c]) (sz - 1) (sl \<or> c = CHR ''/'')
        = Inr ((out @ [c]) @ zs, sz', sl')"
      by simp
    show ?thesis
    proof (cases "cur = []")
      case True
      with r have "zs = []" by simp
      with ys True show ?thesis by simp
    next
      case False
      with Cons.IH[OF r Cons.prems(2)] Cons.prems(4) ys show ?thesis by simp
    qed
  qed
qed

text \<open>An output without a slash is the input: nothing was skipped.\<close>

lemma normalize_loop_noskip:
  "normalize_loop cur out sz sl = Inr (out @ ys, sz', sl') \<Longrightarrow> 0 < sz' \<Longrightarrow>
   CHR ''/'' \<notin> set ys \<Longrightarrow> out = [] \<or> last out \<noteq> CHR ''/'' \<Longrightarrow> ys = cur"
proof (induction cur arbitrary: out sz sl ys)
  case Nil
  then show ?case by simp
next
  case (Cons c cur)
  from Cons.prems(1) show ?case
  proof (cases rule: normalize_loop_ConsE)
    case full
    with Cons.prems show ?thesis by simp
  next
    case skip
    with Cons.prems(4) show ?thesis by auto
  next
    case copy
    from copy(6) obtain zs where ys: "ys = c # zs" by (rule normalize_loop_copy_shape)
    with copy(6) have r: "normalize_loop cur (out @ [c]) (sz - 1) (sl \<or> c = CHR ''/'')
        = Inr ((out @ [c]) @ zs, sz', sl')"
      by simp
    from ys Cons.prems(3) have "c \<noteq> CHR ''/''" "CHR ''/'' \<notin> set zs" by auto
    with Cons.IH[OF r Cons.prems(2)] ys show ?thesis by simp
  qed
qed

text \<open>A slash-free suffix of the output is a suffix of the input.\<close>

lemma normalize_loop_suffix:
  "normalize_loop cur out sz sl = Inr (out @ ys, sz', sl') \<Longrightarrow> 0 < sz' \<Longrightarrow>
   CHR ''/'' \<notin> set t \<Longrightarrow> suffix t ys \<Longrightarrow> suffix t cur"
proof (induction cur arbitrary: out sz sl ys)
  case Nil
  then show ?case by simp
next
  case (Cons c cur)
  from Cons.prems(1) show ?case
  proof (cases rule: normalize_loop_ConsE)
    case full
    with Cons.prems show ?thesis by simp
  next
    case skip
    from Cons.IH[OF skip(5) Cons.prems(2,3,4)] show ?thesis by (simp add: suffix_Cons)
  next
    case copy
    from copy(6) obtain zs where ys: "ys = c # zs" by (rule normalize_loop_copy_shape)
    with copy(6) have r: "normalize_loop cur (out @ [c]) (sz - 1) (sl \<or> c = CHR ''/'')
        = Inr ((out @ [c]) @ zs, sz', sl')"
      by simp
    from Cons.prems(4) ys consider "t = c # zs" | "suffix t zs" by (auto simp: suffix_Cons)
    then show ?thesis
    proof cases
      case 1
      with Cons.prems(3) have "c \<noteq> CHR ''/''" "CHR ''/'' \<notin> set zs" by auto
      with normalize_loop_noskip[OF r Cons.prems(2)] have "zs = cur" by simp
      with 1 show ?thesis by simp
    next
      case 2
      from Cons.IH[OF r Cons.prems(2,3) 2] show ?thesis by (simp add: suffix_Cons)
    qed
  qed
qed

lemmas normalize_eval =
  normalize_name_def size_t_dec_def is_valid_ref_char_def git__suffixcmp_def refs_constants

subsection \<open>Claim C2\<close>

text \<open>
  C2 says that a name normalized with \<open>oid_ref = true\<close> is accepted only if it contains a
  slash and begins with \<^verbatim>\<open>refs/\<close>, or is one of \<^verbatim>\<open>HEAD\<close>, \<^verbatim>\<open>MERGE_HEAD\<close>,
  \<^verbatim>\<open>FETCH_HEAD\<close>. The code accepts \<^verbatim>\<open>foo/bar\<close>, which contains a slash and does
  not begin with \<^verbatim>\<open>refs/\<close>: the last check of \<^verbatim>\<open>normalize_name\<close> rejects a name
  only when it begins with \<^verbatim>\<open>refs/\<close> and equals \<^verbatim>\<open>HEAD\<close> at once.
\<close>

theorem normalize_name_oid_ref_accepts_outside_refs:
  "normalize_name GIT_REFNAME_MAX ''foo/bar'' True = Inr ''foo/bar''
   \<and> git__prefixcmp ''foo/bar'' GIT_REFS_DIR \<noteq> 0"
  by (simp add: normalize_eval)

theorem normalize_name_oid_ref_accepts_outside_refs_witness:
  "\<exists>m. normalize_name GIT_REFNAME_MAX ''foo/bar'' True = Inr m
       \<and> \<not> prefix ''refs/'' m \<and> m \<noteq> ''HEAD'' \<and> m \<noteq> ''MERGE_HEAD'' \<and> m \<noteq> ''FETCH_HEAD''"
  using normalize_name_oid_ref_accepts_outside_refs by simp

subsection \<open>Claim C9\<close>

text \<open>
  C9: name normalization is idempotent. When \<^verbatim>\<open>normalize_name\<close> succeeds on \<open>n\<close> with
  output \<open>m\<close>, it succeeds on \<open>m\<close>, with the same flag and buffer size, and returns \<open>m\<close>.
\<close>

theorem normalize_name_idempotent:
  assumes "normalize_name out_size n is_oid_ref = Inr m"
  shows "normalize_name out_size m is_oid_ref = Inr m"
proof -
  from assms have n_ne: "n \<noteq> []" and n_last: "last n \<noteq> CHR ''.''" "last n \<noteq> CHR ''/''"
    by (auto simp: normalize_name_def split: if_splits)
  from assms n_ne n_last obtain left sl where
    run: "normalize_loop n [] (size_t_dec out_size) False = Inr (m, left, sl)"
    and left: "0 < left"
    and c1: "\<not> (is_oid_ref \<and> \<not> sl \<and> strcmp n GIT_HEAD_FILE \<noteq> 0
                 \<and> strcmp n GIT_MERGE_HEAD_FILE \<noteq> 0 \<and> strcmp n GIT_FETCH_HEAD_FILE \<noteq> 0)"
    and c2: "git__suffixcmp n GIT_FILELOCK_EXTENSION \<noteq> 0"
    and c3: "\<not> (is_oid_ref \<and> \<not> (git__prefixcmp m GIT_REFS_DIR \<noteq> 0
                 \<or> strcmp m GIT_HEAD_FILE \<noteq> 0))"
    by (auto simp: normalize_name_def split: if_splits sum.splits)
  from run have run': "normalize_loop n [] (size_t_dec out_size) False = Inr ([] @ m, left, sl)"
    by simp
  from normalize_loop_replay[OF run'] have again:
    "normalize_loop m [] (size_t_dec out_size) False = Inr (m, left, sl)" by simp
  from normalize_loop_last[OF run' left n_ne n_last(2)]
  have m_ne: "m \<noteq> []" and m_last: "last m = last n"
    by auto
  from normalize_loop_slash[OF run'] have sl: "sl = (CHR ''/'' \<in> set m)" by simp
  have d1: "\<not> (is_oid_ref \<and> \<not> sl \<and> strcmp m GIT_HEAD_FILE \<noteq> 0
                 \<and> strcmp m GIT_MERGE_HEAD_FILE \<noteq> 0 \<and> strcmp m GIT_FETCH_HEAD_FILE \<noteq> 0)"
  proof (cases sl)
    case True
    then show ?thesis by simp
  next
    case False
    with sl normalize_loop_noskip[OF run' left] have "m = n" by simp
    with c1 show ?thesis by simp
  qed
  have d2: "git__suffixcmp m GIT_FILELOCK_EXTENSION \<noteq> 0"
  proof
    assume "git__suffixcmp m GIT_FILELOCK_EXTENSION = 0"
    then have "suffix GIT_FILELOCK_EXTENSION m" by (simp add: git__suffixcmp_eq_0)
    moreover have "CHR ''/'' \<notin> set GIT_FILELOCK_EXTENSION"
      by (simp add: GIT_FILELOCK_EXTENSION_def)
    ultimately have "suffix GIT_FILELOCK_EXTENSION n"
      using normalize_loop_suffix[OF run' left] by blast
    with c2 show False by (simp add: git__suffixcmp_eq_0)
  qed
  show ?thesis
    using m_ne m_last n_last again left d1 d2 c3
    by (simp add: normalize_name_def)
qed

theorem normalize_name_idempotent_witness:
  "normalize_name GIT_REFNAME_MAX ''refs//heads///x'' True = Inr ''refs/heads/x''
   \<and> normalize_name GIT_REFNAME_MAX ''refs/heads/x'' True = Inr ''refs/heads/x''"
proof -
  have h: "normalize_name GIT_REFNAME_MAX ''refs//heads///x'' True = Inr ''refs/heads/x''"
    by (simp add: normalize_eval)
  from h normalize_name_idempotent[OF h] show ?thesis by simp
qed

subsection \<open>Claim C1\<close>

text \<open>
  C1 says that the existence check returns true iff a loose file exists at the path of
  the name or the freshly loaded packed cache contains an entry whose key is the name.
  \<^verbatim>\<open>reference_exists\<close> asks the table for the joined path, not for the name: in a
  repository at \<^verbatim>\<open>/repo/\<close> whose packed-refs file holds \<^verbatim>\<open>refs/heads/dev\<close> and
  that has no loose file of that name, it answers 0 although the cache it has just loaded
  contains the name.
\<close>

theorem reference_exists_misses_packed_entry:
  "fst (reference_exists example_repo_packed_dev ''refs/heads/dev'') = Inr False
   \<and> git_hashtable_lookup
        (packfile_entries (snd (reference_exists example_repo_packed_dev ''refs/heads/dev'')))
        ''refs/heads/dev'' \<noteq> None"
  by code_simp

theorem reference_exists_misses_packed_entry_witness:
  "fst (reference_exists example_repo_packed_dev ''refs/heads/dev'') \<noteq> Inr True"
  using reference_exists_misses_packed_entry by simp

subsection \<open>Claim C3\<close>

text \<open>
  C3 says that the handle \<^verbatim>\<open>git_reference_create_oid\<close> returns records the normalized
  name. The function normalizes the name and checks existence with the normalized form,
  then allocates the handle with the argument as given: for \<^verbatim>\<open>refs//heads/x\<close>, which
  normalizes to \<^verbatim>\<open>refs/heads/x\<close>, the handle is named \<^verbatim>\<open>refs//heads/x\<close> and the
  path handed to the writer is \<^verbatim>\<open>/repo/refs//heads/x\<close>. The sibling
  \<^verbatim>\<open>git_reference_create_symbolic\<close> records the normalized name.
\<close>

theorem create_oid_records_raw_name:
  "normalize_name GIT_REFNAME_MAX ''refs//heads/x'' True = Inr ''refs/heads/x''
   \<and> (case git_reference_create_oid example_repo_with_object ''refs//heads/x'' example_oid False of
        (Inr ref, repo) \<Rightarrow>
           ref_name ref = ''refs//heads/x'' \<and> map fst (files repo) = [''/repo/refs//heads/x'']
      | (Inl e, repo) \<Rightarrow> False)
   \<and> (case git_reference_create_symbolic example_repo_with_object ''refs//heads/x'' ''HEAD'' False of
        (Inr ref, repo) \<Rightarrow> ref_name ref = ''refs/heads/x''
      | (Inl e, repo) \<Rightarrow> False)"
  by code_simp

theorem create_oid_records_raw_name_witness:
  "\<exists>ref repo.
     git_reference_create_oid example_repo_with_object ''refs//heads/x'' example_oid False
       = (Inr ref, repo)
     \<and> Inr (ref_name ref) \<noteq> normalize_name GIT_REFNAME_MAX ''refs//heads/x'' True"
  using create_oid_records_raw_name by (auto split: prod.splits sum.splits)

subsection \<open>Claim C10\<close>

lemma reference_alloc_coherent: "reference_coherent (reference_alloc name)"
  by (simp add: reference_alloc_def reference_coherent_def)

lemma loose_lookup_coherent:
  "reference_coherent ref \<Longrightarrow> loose_lookup repo ref = Inr ref' \<Longrightarrow> reference_coherent ref'"
  by (auto simp: loose_lookup_def loose_parse_symbolic_def Let_def reference_coherent_def
      split: sum.splits prod.splits if_splits option.splits)

lemma packed_lookup_coherent:
  "reference_coherent ref \<Longrightarrow> packed_lookup repo ref = (Inr ref', repo') \<Longrightarrow>
   reference_coherent ref'"
  by (auto simp: packed_lookup_def Let_def reference_coherent_def
      split: sum.splits prod.splits if_splits option.splits)

lemma git_reference_lookup_coherent:
  "git_reference_lookup repo name = (Inr ref, repo') \<Longrightarrow> reference_coherent ref"
  by (auto simp: git_reference_lookup_def reference_lookup_def
      split: sum.splits prod.splits if_splits
      dest: loose_lookup_coherent[OF reference_alloc_coherent]
            packed_lookup_coherent[OF reference_alloc_coherent])

lemma loose_write_coherent:
  "reference_coherent ref \<Longrightarrow> loose_write repo ref = (Inr ref', repo') \<Longrightarrow>
   reference_coherent ref'"
  by (auto simp: loose_write_def Let_def reference_coherent_def
      split: sum.splits prod.splits if_splits option.splits)

lemma git_reference_set_oid_coherent:
  assumes "GIT_REF_SYMBOLIC \<notin> ref_flags ref"
    and "git_reference_set_oid repo ref oid = (Inr ref', repo')"
  shows "reference_coherent ref'"
proof -
  from assms(2) have w: "loose_write repo (ref\<lparr>ref_target := TARGET_OID oid\<rparr>) = (Inr ref', repo')"
    by (auto simp: git_reference_set_oid_def split: if_splits)
  from assms(1) have "reference_coherent (ref\<lparr>ref_target := TARGET_OID oid\<rparr>)"
    by (simp add: reference_coherent_def)
  then show ?thesis using w by (rule loose_write_coherent)
qed

lemma git_reference_set_target_coherent:
  assumes "GIT_REF_OID \<notin> ref_flags ref"
    and "git_reference_set_target repo ref target = (Inr ref', repo')"
  shows "reference_coherent ref'"
proof -
  from assms(2) obtain normalized where
    w: "loose_write repo (ref\<lparr>ref_target := TARGET_SYMBOLIC (Some normalized)\<rparr>) = (Inr ref', repo')"
    by (auto simp: git_reference_set_target_def split: if_splits sum.splits)
  from assms(1) have "reference_coherent (ref\<lparr>ref_target := TARGET_SYMBOLIC (Some normalized)\<rparr>)"
    by (simp add: reference_coherent_def)
  then show ?thesis using w by (rule loose_write_coherent)
qed

lemma git_reference_create_oid_coherent:
  assumes "git_reference_create_oid repo name oid force = (Inr ref, repo')"
  shows "reference_coherent ref"
proof -
  from assms obtain repo1 where
    "git_reference_set_oid repo1
       ((reference_alloc name)\<lparr>ref_flags := insert GIT_REF_OID (ref_flags (reference_alloc name))\<rparr>)
       oid = (Inr ref, repo')"
    by (auto simp: git_reference_create_oid_def Let_def
        split: sum.splits prod.splits if_splits)
  then show ?thesis
    by (rule git_reference_set_oid_coherent[rotated]) (simp add: reference_alloc_def)
qed

lemma git_reference_create_symbolic_coherent:
  assumes "git_reference_create_symbolic repo name target force = (Inr ref, repo')"
  shows "reference_coherent ref"
proof -
  from assms obtain repo1 normalized where
    "git_reference_set_target repo1
       ((reference_alloc normalized)\<lparr>ref_flags :=
           insert GIT_REF_SYMBOLIC (ref_flags (reference_alloc normalized))\<rparr>)
       target = (Inr ref, repo')"
    by (auto simp: git_reference_create_symbolic_def Let_def
        split: sum.splits prod.splits if_splits)
  then show ?thesis
    by (rule git_reference_set_target_coherent[rotated]) (simp add: reference_alloc_def)
qed

lemma resolve_loop_coherent:
  "resolve_loop left repo ref = (Inr ref', repo') \<Longrightarrow> reference_coherent ref'"
proof (induction left arbitrary: repo ref)
  case 0
  then show ?case by simp
next
  case (Suc left)
  then show ?case
    by (auto split: option.splits prod.splits sum.splits if_splits
        dest: git_reference_lookup_coherent)
qed

lemma git_reference_resolve_coherent:
  "git_reference_resolve repo ref = (Inr ref', repo') \<Longrightarrow> reference_coherent ref'"
  by (auto simp: git_reference_resolve_def split: if_splits
      dest: git_reference_lookup_coherent resolve_loop_coherent)

text \<open>
  C10: on a handle (coherent, as every handle the backend returns is) the OID getter
  returns NULL unless the kind is direct, the target getter returns NULL unless the kind
  is symbolic, and what a getter returns otherwise is the payload of its own kind: an OID
  from \<^verbatim>\<open>git_reference_oid\<close>, a target name from \<^verbatim>\<open>git_reference_target\<close>.
\<close>

theorem getters_follow_kind:
  assumes "reference_coherent ref"
  shows "(git_reference_type ref \<noteq> GIT_REF_OID \<longrightarrow> git_reference_oid ref = None)
       \<and> (git_reference_type ref \<noteq> GIT_REF_SYMBOLIC \<longrightarrow> git_reference_target ref = None)
       \<and> (\<forall>t. git_reference_oid ref = Some t \<longrightarrow> (\<exists>oid. t = TARGET_OID oid))
       \<and> (\<forall>t. git_reference_target ref = Some t \<longrightarrow> (\<exists>n. t = TARGET_SYMBOLIC (Some n)))"
  using assms
  by (auto simp: reference_coherent_def git_reference_type_def git_reference_oid_def
      git_reference_target_def split: if_splits ref_target.splits option.splits)

theorem getters_follow_kind_witness:
  "reference_coherent \<lparr>ref_name = ''HEAD'', ref_flags = {GIT_REF_SYMBOLIC},
       ref_target = TARGET_SYMBOLIC (Some ''refs/heads/main''), ref_mtime = 7\<rparr>
   \<and> git_reference_oid \<lparr>ref_name = ''HEAD'', ref_flags = {GIT_REF_SYMBOLIC},
       ref_target = TARGET_SYMBOLIC (Some ''refs/heads/main''), ref_mtime = 7\<rparr> = None
   \<and> git_reference_target \<lparr>ref_name = ''HEAD'', ref_flags = {GIT_REF_SYMBOLIC},
       ref_target = TARGET_SYMBOLIC (Some ''refs/heads/main''), ref_mtime = 7\<rparr>
       = Some (TARGET_SYMBOLIC (Some ''refs/heads/main''))"
proof -
  let ?h = "\<lparr>ref_name = ''HEAD'', ref_flags = {GIT_REF_SYMBOLIC},
       ref_target = TARGET_SYMBOLIC (Some ''refs/heads/main''), ref_mtime = 7\<rparr>"
  have c: "reference_coherent ?h" by (simp add: reference_coherent_def)
  have t: "git_reference_type ?h \<noteq> GIT_REF_OID" by (simp add: git_reference_type_def)
  from getters_follow_kind[OF c] t have "git_reference_oid ?h = None" by blast
  with c show ?thesis by (simp add: git_reference_target_def)
qed

subsection \<open>Hex round trip\<close>

lemma hex_digits_table:
  "list_all (\<lambda>k. from_hex (''0123456789abcdef'' ! k) = int k
      \<and> ''0123456789abcdef'' ! k \<notin> set ''r^ #'') [0..<16]"
  by code_simp

lemma from_hex_to_hex: "from_hex (to_hex n) = int (n mod 16)"
proof -
  have "n mod 16 \<in> set [0..<16]" by simp
  with hex_digits_table show ?thesis
    unfolding to_hex_def list_all_iff by blast
qed

lemma to_hex_not_special: "to_hex n \<notin> set ''r^ #''"
proof -
  have "n mod 16 \<in> set [0..<16]" by simp
  with hex_digits_table show ?thesis
    unfolding to_hex_def list_all_iff by blast
qed

lemma oid_bytes_fmt:
  "list_all (\<lambda>b. b < 256) oid \<Longrightarrow> oid_bytes (git_oid_fmt oid) = Inr oid"
proof (induction oid)
  case Nil
  then show ?case by (simp add: git_oid_fmt_def)
next
  case (Cons b oid)
  then have b: "b < 256" and IH: "oid_bytes (git_oid_fmt oid) = Inr oid" by simp_all
  have "nat (16 * int (b div 16) + int (b mod 16)) = nat (int (16 * (b div 16) + b mod 16))"
    by (simp only: of_nat_add of_nat_mult of_nat_numeral)
  also have "\<dots> = b" by (simp only: mult_div_mod_eq nat_int)
  finally have k: "nat (16 * int (b div 16) + int (b mod 16)) = b" .
  from b have "b div 16 mod 16 = b div 16" by simp
  with k have "nat (16 * int (b div 16 mod 16) + int (b mod 16)) = b" by simp
  with k IH show ?case
    by (simp add: git_oid_fmt_def from_hex_to_hex)
qed

lemma length_git_oid_fmt: "length (git_oid_fmt oid) = 2 * length oid"
  by (induction oid) (simp_all add: git_oid_fmt_def)

lemma git_oid_fromstr_fmt:
  "valid_oid oid \<Longrightarrow> git_oid_fromstr (git_oid_fmt oid @ rest) = Inr oid"
  by (simp add: git_oid_fromstr_def valid_oid_def GIT_OID_HEXSZ_def length_git_oid_fmt oid_bytes_fmt)

lemma loose_parse_oid_fmt:
  "valid_oid oid \<Longrightarrow> loose_parse_oid (git_oid_fmt oid @ [CHR 0x0A]) = Inr oid"
  by (simp add: loose_parse_oid_def git_oid_fromstr_fmt GIT_OID_HEXSZ_def length_git_oid_fmt
      valid_oid_def peek_def)

lemma git_oid_fmt_not_symref:
  assumes "valid_oid oid"
  shows "git__prefixcmp (git_oid_fmt oid @ rest) GIT_SYMREF \<noteq> 0"
proof -
  from assms obtain b bs where "oid = b # bs" by (cases oid) (auto simp: valid_oid_def)
  then have "\<not> prefix GIT_SYMREF (git_oid_fmt oid @ rest)"
    using to_hex_not_special[of "b div 16"]
    by (auto simp add: git_oid_fmt_def GIT_SYMREF_def)
  moreover have "CHR 0x00 \<notin> set GIT_SYMREF" by (simp add: GIT_SYMREF_def)
  ultimately show ?thesis using git__prefixcmp_eq_0 by blast
qed

subsection \<open>Claim C4\<close>

lemma loose_parse_symbolic_error:
  "loose_parse_symbolic ref data = Inl e \<Longrightarrow> e = GIT_EOBJCORRUPTED"
  by (auto simp: loose_parse_symbolic_def Let_def split: if_splits option.splits)

lemma loose_parse_oid_error:
  "loose_parse_oid data = Inl e \<Longrightarrow> e = GIT_EOBJCORRUPTED"
  by (auto simp: loose_parse_oid_def Let_def split: if_splits sum.splits)

lemma loose_lookup_file_present:
  assumes "map_of (files repo) (git_buf_joinpath (path_repository repo) (ref_name ref)) = Some f"
  shows "loose_lookup repo ref \<noteq> Inl GIT_ENOTFOUND"
proof
  assume nf: "loose_lookup repo ref = Inl GIT_ENOTFOUND"
  from assms obtain data mtime updated where
    rd: "reference_read repo (path_repository repo) (ref_name ref) (Some (ref_mtime ref))
          = Inr (data, mtime, updated)"
    by (cases "ref_mtime ref = st_mtime f")
       (auto simp: reference_read_def git_futils_readbuffer_updated_def)
  from nf rd have "updated" by (auto simp: loose_lookup_def Let_def split: if_splits)
  with nf rd show False
    by (auto simp: loose_lookup_def Let_def split: if_splits sum.splits
        dest: loose_parse_symbolic_error loose_parse_oid_error)
qed

lemma reference_lookup_loose_ok:
  "loose_lookup repo ref = Inr ref' \<Longrightarrow> reference_lookup repo ref = (Inr ref', repo)"
  by (simp add: reference_lookup_def)

lemma reference_lookup_loose_error:
  "loose_lookup repo ref = Inl e \<Longrightarrow> e \<noteq> GIT_ENOTFOUND \<Longrightarrow>
   reference_lookup repo ref = (Inl e, repo)"
  by (simp add: reference_lookup_def)

lemma reference_lookup_loose_notfound:
  assumes "loose_lookup repo ref = Inl GIT_ENOTFOUND"
  shows "reference_lookup repo ref = packed_lookup repo ref"
proof (cases "packed_lookup repo ref")
  case (Pair r repo')
  with assms show ?thesis
    by (cases r) (simp_all add: reference_lookup_def)
qed

lemma reference_lookup_notfound_iff:
  "fst (reference_lookup repo ref) = Inl GIT_ENOTFOUND \<longleftrightarrow>
     loose_lookup repo ref = Inl GIT_ENOTFOUND \<and> fst (packed_lookup repo ref) = Inl GIT_ENOTFOUND"
proof (cases "loose_lookup repo ref")
  case (Inl e)
  show ?thesis
  proof (cases "e = GIT_ENOTFOUND")
    case True
    with Inl reference_lookup_loose_notfound[of repo ref] show ?thesis by simp
  next
    case False
    with Inl reference_lookup_loose_error[of repo ref e] show ?thesis by simp
  qed
next
  case (Inr r)
  with reference_lookup_loose_ok[of repo ref r] show ?thesis by simp
qed

lemma loose_lookup_direct_file:
  assumes "map_of (files repo) (git_buf_joinpath (path_repository repo) N) = Some f"
    and "st_mtime f \<noteq> 0" and "file_data f = git_oid_fmt oid @ [CHR 0x0A]" and "valid_oid oid"
  shows "loose_lookup repo (reference_alloc N) =
      Inr \<lparr>ref_name = N, ref_flags = {GIT_REF_OID}, ref_target = TARGET_OID oid,
           ref_mtime = st_mtime f\<rparr>"
proof -
  from assms(1,2) have rd:
    "reference_read repo (path_repository repo) N (Some 0) = Inr (file_data f, st_mtime f, True)"
    by (simp add: reference_read_def git_futils_readbuffer_updated_def)
  have p: "git__prefixcmp (file_data f) GIT_SYMREF \<noteq> 0"
    using assms(3,4) by (simp add: git_oid_fmt_not_symref)
  have q: "loose_parse_oid (file_data f) = Inr oid"
    using assms(3,4) by (simp add: loose_parse_oid_fmt)
  show ?thesis
    by (simp add: loose_lookup_def reference_alloc_def rd p q)
qed

text \<open>
  C4: lookup consults the loose store first and the packed store only when the loose
  store answered not-found. For a name that normalizes to \<open>N\<close>: a successful loose
  lookup is the result and the packed cache is not touched; a loose error other than
  not-found is returned at once; on loose not-found the result is the packed lookup's,
  success or error; not-found is reported exactly when both stores report it; a loose
  file at the path of \<open>N\<close> never lets the loose store answer not-found; and a loose file
  holding the OID \<open>oid\<close> makes lookup return \<open>oid\<close> on a handle that is not packed,
  whatever the packed cache or file holds for \<open>N\<close>.
\<close>

theorem lookup_loose_before_packed:
  assumes "normalize_name GIT_REFNAME_MAX name False = Inr N"
  shows "(\<forall>ref. loose_lookup repo (reference_alloc N) = Inr ref \<longrightarrow>
            git_reference_lookup repo name = (Inr ref, repo))
       \<and> (\<forall>e. loose_lookup repo (reference_alloc N) = Inl e \<and> e \<noteq> GIT_ENOTFOUND \<longrightarrow>
            git_reference_lookup repo name = (Inl e, repo))
       \<and> (loose_lookup repo (reference_alloc N) = Inl GIT_ENOTFOUND \<longrightarrow>
            git_reference_lookup repo name = packed_lookup repo (reference_alloc N))
       \<and> (fst (git_reference_lookup repo name) = Inl GIT_ENOTFOUND \<longleftrightarrow>
            loose_lookup repo (reference_alloc N) = Inl GIT_ENOTFOUND
            \<and> fst (packed_lookup repo (reference_alloc N)) = Inl GIT_ENOTFOUND)
       \<and> (map_of (files repo) (git_buf_joinpath (path_repository repo) N) \<noteq> None \<longrightarrow>
            loose_lookup repo (reference_alloc N) \<noteq> Inl GIT_ENOTFOUND)
       \<and> (\<forall>f oid. map_of (files repo) (git_buf_joinpath (path_repository repo) N) = Some f
              \<and> st_mtime f \<noteq> 0 \<and> file_data f = git_oid_fmt oid @ [CHR 0x0A] \<and> valid_oid oid \<longrightarrow>
            git_reference_lookup repo name =
              (Inr \<lparr>ref_name = N, ref_flags = {GIT_REF_OID}, ref_target = TARGET_OID oid,
                    ref_mtime = st_mtime f\<rparr>, repo))"
proof -
  have l: "git_reference_lookup repo name = reference_lookup repo (reference_alloc N)"
    using assms by (simp add: git_reference_lookup_def)
  have n: "ref_name (reference_alloc N) = N" by (simp add: reference_alloc_def)
  show ?thesis
    unfolding l
    using reference_lookup_loose_ok[of repo "reference_alloc N"]
      reference_lookup_loose_error[of repo "reference_alloc N"]
      reference_lookup_loose_notfound[of repo "reference_alloc N"]
      reference_lookup_notfound_iff[of repo "reference_alloc N"]
      loose_lookup_file_present[of repo "reference_alloc N"]
      loose_lookup_direct_file[of repo N]
    by (simp add: n) blast
qed

theorem lookup_loose_before_packed_witness:
  "normalize_name GIT_REFNAME_MAX ''refs/heads/dev'' False = Inr ''refs/heads/dev''
   \<and> git_reference_lookup example_repo_shadow ''refs/heads/dev'' =
        (Inr \<lparr>ref_name = ''refs/heads/dev'', ref_flags = {GIT_REF_OID},
              ref_target = TARGET_OID example_oid, ref_mtime = 7\<rparr>, example_repo_shadow)
   \<and> git_hashtable_lookup
        (packfile_entries (snd (packed_load example_repo_shadow))) ''refs/heads/dev''
       = Some \<lparr>pk_oid = replicate 20 17, pk_peel = uninitialized_oid, pk_flags = {},
               pk_name = ''refs/heads/dev''\<rparr>"
proof -
  have h: "normalize_name GIT_REFNAME_MAX ''refs/heads/dev'' False = Inr ''refs/heads/dev''"
    by (simp add: normalize_eval)
  have f: "map_of (files example_repo_shadow)
             (git_buf_joinpath (path_repository example_repo_shadow) ''refs/heads/dev'')
           = Some \<lparr>st_mtime = 7,
                   file_data = ''aaaaaaaaaaaaaaaaaaaaaaaaaaaaaaaaaaaaaaaa'' @ [CHR 0x0A]\<rparr>"
    by code_simp
  have d: "''aaaaaaaaaaaaaaaaaaaaaaaaaaaaaaaaaaaaaaaa'' @ [CHR 0x0A]
           = git_oid_fmt example_oid @ [CHR 0x0A]"
    by code_simp
  have v: "valid_oid example_oid" by code_simp
  have p: "git_hashtable_lookup
        (packfile_entries (snd (packed_load example_repo_shadow))) ''refs/heads/dev''
       = Some \<lparr>pk_oid = replicate 20 17, pk_peel = uninitialized_oid, pk_flags = {},
               pk_name = ''refs/heads/dev''\<rparr>"
    by code_simp
  from lookup_loose_before_packed[OF h, of example_repo_shadow] f d v
  have "git_reference_lookup example_repo_shadow ''refs/heads/dev'' =
        (Inr \<lparr>ref_name = ''refs/heads/dev'', ref_flags = {GIT_REF_OID},
              ref_target = TARGET_OID example_oid, ref_mtime = 7\<rparr>, example_repo_shadow)"
    by simp
  with h p show ?thesis by simp
qed

subsection \<open>Claim C5\<close>

lemma is_normalized_valid:
  assumes "is_normalized n"
  shows "n \<noteq> []" "\<forall>c \<in> set n. is_valid_ref_char c"
proof -
  from assms show "n \<noteq> []"
    by (auto simp: is_normalized_def normalize_name_def split: if_splits)
  from assms obtain left sl where
    "normalize_loop n [] (size_t_dec GIT_REFNAME_MAX) False = Inr ([] @ n, left, sl)"
    by (auto simp: is_normalized_def normalize_name_def split: if_splits sum.splits)
  from normalize_loop_valid[OF this] show "\<forall>c \<in> set n. is_valid_ref_char c" .
qed

lemma valid_ref_char_not_control:
  "is_valid_ref_char c \<Longrightarrow> c \<noteq> CHR 0x00 \<and> c \<noteq> CHR 0x0A \<and> c \<noteq> CHR 0x0D"
  by (auto simp: is_valid_ref_char_def)

lemma memchr_append_first:
  "c \<notin> set xs \<Longrightarrow> memchr (xs @ c # ys) c = Some (length xs)"
  by (induction xs) auto

lemma loose_parse_symbolic_line:
  assumes "is_normalized t"
  shows "loose_parse_symbolic ref (GIT_SYMREF @ t @ [CHR 0x0A])
       = Inr (ref\<lparr>ref_target := TARGET_SYMBOLIC (Some t)\<rparr>)"
proof -
  from is_normalized_valid[OF assms] valid_ref_char_not_control
  have ne: "t \<noteq> []" and nul: "CHR 0x00 \<notin> set t" and lf: "CHR 0x0A \<notin> set t"
    and cr: "last t \<noteq> CHR 0x0D"
    by (auto dest: last_in_set)
  have c: "cstr (t @ [CHR 0x0A]) = t @ [CHR 0x0A]"
    using nul by (auto simp add: cstr_def takeWhile_eq_all_conv)
  have m: "memchr (t @ [CHR 0x0A]) (CHR 0x0A) = Some (length t)"
    using lf by (rule memchr_append_first)
  have l: "(t @ [CHR 0x0A]) ! (length t - Suc 0) = last t"
    using ne by (simp add: nth_append last_conv_nth)
  show ?thesis
    using ne cr by (simp add: loose_parse_symbolic_def c m l Let_def)
qed

lemma git_reference_lookup_symref:
  assumes "is_normalized n" and "loose_symref repo n t" and "is_normalized t"
  shows "\<exists>mt. git_reference_lookup repo n =
      (Inr \<lparr>ref_name = n, ref_flags = {GIT_REF_SYMBOLIC},
            ref_target = TARGET_SYMBOLIC (Some t), ref_mtime = mt\<rparr>, repo)"
proof -
  from assms(2) obtain f where f: "map_of (files repo) (git_buf_joinpath (path_repository repo) n) = Some f"
    "st_mtime f \<noteq> 0" "file_data f = GIT_SYMREF @ t @ [CHR 0x0A]"
    by (auto simp: loose_symref_def split: option.splits)
  from f(1,2) have rd:
    "reference_read repo (path_repository repo) n (Some 0) = Inr (file_data f, st_mtime f, True)"
    by (simp add: reference_read_def git_futils_readbuffer_updated_def)
  have "CHR 0x00 \<notin> set GIT_SYMREF" by (simp add: GIT_SYMREF_def)
  then have p: "git__prefixcmp (GIT_SYMREF @ t @ [CHR 0x0A]) GIT_SYMREF = 0"
    using git__prefixcmp_eq_0 by simp
  have "loose_lookup repo (reference_alloc n) =
      Inr \<lparr>ref_name = n, ref_flags = {GIT_REF_SYMBOLIC},
            ref_target = TARGET_SYMBOLIC (Some t), ref_mtime = st_mtime f\<rparr>"
    using f(3) by (simp add: loose_lookup_def reference_alloc_def rd p Let_def
        loose_parse_symbolic_line[OF assms(3)])
  then have "reference_lookup repo (reference_alloc n) =
      (Inr \<lparr>ref_name = n, ref_flags = {GIT_REF_SYMBOLIC},
            ref_target = TARGET_SYMBOLIC (Some t), ref_mtime = st_mtime f\<rparr>, repo)"
    by (rule reference_lookup_loose_ok)
  with assms(1) show ?thesis
    by (auto simp: git_reference_lookup_def is_normalized_def)
qed

lemma symref_chain_normalized: "symref_chain repo names \<Longrightarrow> n \<in> set names \<Longrightarrow> is_normalized n"
  by (induction repo names rule: symref_chain.induct) auto

lemma resolve_loop_chain_ok:
  "symref_chain repo (n # names) \<Longrightarrow> target_symbolic (ref_target ref) = Some n \<Longrightarrow>
   length names < left \<Longrightarrow>
   git_reference_lookup repo (last (n # names)) = (Inr r, repo') \<Longrightarrow>
   GIT_REF_OID \<in> ref_flags r \<Longrightarrow>
   resolve_loop left repo ref = (Inr r, repo')"
proof (induction left arbitrary: n names ref)
  case 0
  then show ?case by simp
next
  case (Suc left)
  show ?case
  proof (cases names)
    case Nil
    with Suc.prems show ?thesis by simp
  next
    case (Cons t rest)
    with Suc.prems(1) have n: "is_normalized n" and l: "loose_symref repo n t"
      and c: "symref_chain repo (t # rest)" by simp_all
    from c have t: "is_normalized t" by (rule symref_chain_normalized) simp
    from git_reference_lookup_symref[OF n l t] obtain mt where
      lk: "git_reference_lookup repo n =
        (Inr \<lparr>ref_name = n, ref_flags = {GIT_REF_SYMBOLIC},
              ref_target = TARGET_SYMBOLIC (Some t), ref_mtime = mt\<rparr>, repo)" by blast
    have "resolve_loop left repo \<lparr>ref_name = n, ref_flags = {GIT_REF_SYMBOLIC},
              ref_target = TARGET_SYMBOLIC (Some t), ref_mtime = mt\<rparr> = (Inr r, repo')"
      using Suc.prems(3,4,5) Cons by (intro Suc.IH[OF c]) simp_all
    with Suc.prems(2) lk show ?thesis by simp
  qed
qed

lemma resolve_loop_chain_too_nested:
  "symref_chain repo (n # names) \<Longrightarrow> target_symbolic (ref_target ref) = Some n \<Longrightarrow>
   left \<le> length names \<Longrightarrow>
   resolve_loop left repo ref = (Inl GITERR_TOO_NESTED, repo)"
proof (induction left arbitrary: n names ref)
  case 0
  then show ?case by simp
next
  case (Suc left)
  then obtain t rest where names: "names = t # rest" by (cases names) auto
  with Suc.prems(1) have n: "is_normalized n" and l: "loose_symref repo n t"
    and c: "symref_chain repo (t # rest)" by simp_all
  from c have t: "is_normalized t" by (rule symref_chain_normalized) simp
  from git_reference_lookup_symref[OF n l t] obtain mt where
    lk: "git_reference_lookup repo n =
      (Inr \<lparr>ref_name = n, ref_flags = {GIT_REF_SYMBOLIC},
            ref_target = TARGET_SYMBOLIC (Some t), ref_mtime = mt\<rparr>, repo)" by blast
  have "resolve_loop left repo \<lparr>ref_name = n, ref_flags = {GIT_REF_SYMBOLIC},
            ref_target = TARGET_SYMBOLIC (Some t), ref_mtime = mt\<rparr> = (Inl GITERR_TOO_NESTED, repo)"
    using Suc.prems(3) names by (intro Suc.IH[OF c]) simp_all
  with Suc.prems(2) lk show ?case by simp
qed

lemma resolve_loop_closed_too_nested:
  "symref_closed repo S \<Longrightarrow> n \<in> set S \<Longrightarrow> target_symbolic (ref_target ref) = Some n \<Longrightarrow>
   resolve_loop left repo ref = (Inl GITERR_TOO_NESTED, repo)"
proof (induction left arbitrary: n ref)
  case 0
  then show ?case by simp
next
  case (Suc left)
  from Suc.prems(1,2) obtain t where n: "is_normalized n" and t: "t \<in> set S"
    and l: "loose_symref repo n t"
    by (auto simp: symref_closed_def list_all_iff list_ex_iff)
  from Suc.prems(1) t have tn: "is_normalized t"
    by (auto simp: symref_closed_def list_all_iff)
  from git_reference_lookup_symref[OF n l tn] obtain mt where
    lk: "git_reference_lookup repo n =
      (Inr \<lparr>ref_name = n, ref_flags = {GIT_REF_SYMBOLIC},
            ref_target = TARGET_SYMBOLIC (Some t), ref_mtime = mt\<rparr>, repo)" by blast
  have "resolve_loop left repo \<lparr>ref_name = n, ref_flags = {GIT_REF_SYMBOLIC},
            ref_target = TARGET_SYMBOLIC (Some t), ref_mtime = mt\<rparr> = (Inl GITERR_TOO_NESTED, repo)"
    by (intro Suc.IH[OF Suc.prems(1) t]) simp
  with Suc.prems(3) lk show ?case by simp
qed

text \<open>
  C5: \<^verbatim>\<open>git_reference_resolve\<close> on a symbolic handle whose target is \<open>n\<close>. The handle
  and the names \<open>n # names\<close> but the last form the symbolic chain, so its length is
  \<open>length (n # names)\<close>. When that is at most \<^verbatim>\<open>MAX_NESTING_LEVEL\<close> and the lookup of
  the last name gives a direct handle, resolve returns that handle (with the OID of a
  loose direct file, when the last name is one); when the chain is longer, and when the
  names reached from \<open>n\<close> are symbolic references to one another for ever (a cycle),
  resolve fails with the too-nested error.
\<close>

theorem resolve_bounded:
  assumes "GIT_REF_OID \<notin> ref_flags ref"
    and "target_symbolic (ref_target ref) = Some n"
  shows "(symref_chain repo (n # names) \<and> length (n # names) \<le> MAX_NESTING_LEVEL
            \<and> git_reference_lookup repo (last (n # names)) = (Inr r, repo')
            \<and> GIT_REF_OID \<in> ref_flags r
          \<longrightarrow> git_reference_resolve repo ref = (Inr r, repo') \<and> git_reference_oid r \<noteq> None)
       \<and> (symref_chain repo (n # names) \<and> length (n # names) \<le> MAX_NESTING_LEVEL
            \<and> map_of (files repo) (git_buf_joinpath (path_repository repo) (last (n # names)))
                = Some f
            \<and> st_mtime f \<noteq> 0 \<and> file_data f = git_oid_fmt oid @ [CHR 0x0A] \<and> valid_oid oid
          \<longrightarrow> (\<exists>r. git_reference_resolve repo ref = (Inr r, repo)
                   \<and> git_reference_oid r = Some (TARGET_OID oid)))
       \<and> (symref_chain repo (n # names) \<and> length (n # names) > MAX_NESTING_LEVEL
          \<longrightarrow> git_reference_resolve repo ref = (Inl GITERR_TOO_NESTED, repo))
       \<and> (symref_closed repo S \<and> n \<in> set S
          \<longrightarrow> git_reference_resolve repo ref = (Inl GITERR_TOO_NESTED, repo))"
proof -
  have p1: "git_reference_resolve repo ref = (Inr r, repo') \<and> git_reference_oid r \<noteq> None"
    if a: "symref_chain repo (n # names) \<and> length (n # names) \<le> MAX_NESTING_LEVEL
            \<and> git_reference_lookup repo (last (n # names)) = (Inr r, repo')
            \<and> GIT_REF_OID \<in> ref_flags r"
    using a assms resolve_loop_chain_ok[of repo n names ref MAX_NESTING_LEVEL r repo']
    by (auto simp: git_reference_resolve_def git_reference_oid_def)
  have p2: "\<exists>r. git_reference_resolve repo ref = (Inr r, repo)
                   \<and> git_reference_oid r = Some (TARGET_OID oid)"
    if a: "symref_chain repo (n # names) \<and> length (n # names) \<le> MAX_NESTING_LEVEL
            \<and> map_of (files repo) (git_buf_joinpath (path_repository repo) (last (n # names)))
                = Some f
            \<and> st_mtime f \<noteq> 0 \<and> file_data f = git_oid_fmt oid @ [CHR 0x0A] \<and> valid_oid oid"
  proof -
    let ?r = "\<lparr>ref_name = last (n # names), ref_flags = {GIT_REF_OID},
               ref_target = TARGET_OID oid, ref_mtime = st_mtime f\<rparr>"
    from a have "is_normalized (last (n # names))"
      by (intro symref_chain_normalized[of repo "n # names"]) simp_all
    then have "git_reference_lookup repo (last (n # names))
        = reference_lookup repo (reference_alloc (last (n # names)))"
      by (simp add: git_reference_lookup_def is_normalized_def)
    also have "\<dots> = (Inr ?r, repo)"
    proof (rule reference_lookup_loose_ok)
      from a show "loose_lookup repo (reference_alloc (last (n # names))) = Inr ?r"
        by (intro loose_lookup_direct_file) simp_all
    qed
    finally have "git_reference_lookup repo (last (n # names)) = (Inr ?r, repo)" .
    with a assms resolve_loop_chain_ok[of repo n names ref MAX_NESTING_LEVEL ?r repo]
    have "git_reference_resolve repo ref = (Inr ?r, repo)"
      by (auto simp: git_reference_resolve_def)
    then show ?thesis by (simp add: git_reference_oid_def)
  qed
  have p3: "git_reference_resolve repo ref = (Inl GITERR_TOO_NESTED, repo)"
    if "symref_chain repo (n # names) \<and> length (n # names) > MAX_NESTING_LEVEL"
    using that assms resolve_loop_chain_too_nested[of repo n names ref MAX_NESTING_LEVEL]
    by (auto simp: git_reference_resolve_def)
  have p4: "git_reference_resolve repo ref = (Inl GITERR_TOO_NESTED, repo)"
    if "symref_closed repo S \<and> n \<in> set S"
    using that assms resolve_loop_closed_too_nested[of repo S n ref MAX_NESTING_LEVEL]
    by (auto simp: git_reference_resolve_def)
  from p1 p2 p3 p4 show ?thesis by blast
qed

theorem resolve_bounded_witness:
  "(\<exists>r. git_reference_resolve example_repo_chains (example_symbolic_handle ''HEAD'')
          = (Inr r, example_repo_chains)
        \<and> git_reference_oid r = Some (TARGET_OID example_oid))
   \<and> symref_chain example_repo_chains
        [''refs/heads/a'', ''refs/heads/b'', ''refs/heads/a'', ''refs/heads/b'',
         ''refs/heads/a'', ''refs/heads/b'']
   \<and> git_reference_resolve example_repo_chains (example_symbolic_handle ''refs/heads/a'')
        = (Inl GITERR_TOO_NESTED, example_repo_chains)
   \<and> symref_closed example_repo_chains [''refs/heads/a'', ''refs/heads/b'']"
proof -
  let ?six = "[''refs/heads/b'', ''refs/heads/a'', ''refs/heads/b'',
         ''refs/heads/a'', ''refs/heads/b'']"
  have o: "GIT_REF_OID \<notin> ref_flags (example_symbolic_handle t)"
    and t: "target_symbolic (ref_target (example_symbolic_handle t)) = Some t" for t
    by (simp_all add: example_symbolic_handle_def)
  have c1: "symref_chain example_repo_chains (''HEAD'' # [''refs/heads/main''])" by code_simp
  have l1: "length (''HEAD'' # [''refs/heads/main'']) \<le> MAX_NESTING_LEVEL" by code_simp
  have f1: "map_of (files example_repo_chains)
        (git_buf_joinpath (path_repository example_repo_chains)
           (last (''HEAD'' # [''refs/heads/main''])))
      = Some \<lparr>st_mtime = 7,
          file_data = ''aaaaaaaaaaaaaaaaaaaaaaaaaaaaaaaaaaaaaaaa'' @ [CHR 0x0A]\<rparr>"
    by code_simp
  have d1: "''aaaaaaaaaaaaaaaaaaaaaaaaaaaaaaaaaaaaaaaa'' @ [CHR 0x0A]
           = git_oid_fmt example_oid @ [CHR 0x0A]"
    by code_simp
  have v1: "valid_oid example_oid" by code_simp
  have c2: "symref_chain example_repo_chains (''refs/heads/a'' # ?six)" by code_simp
  have l2: "length (''refs/heads/a'' # ?six) > MAX_NESTING_LEVEL" by code_simp
  have c3: "symref_closed example_repo_chains [''refs/heads/a'', ''refs/heads/b'']"
    by code_simp
  from resolve_bounded[OF o[of "''HEAD''"] t[of "''HEAD''"], where repo = example_repo_chains
      and names = "[''refs/heads/main'']"
      and f = "\<lparr>st_mtime = 7,
                file_data = ''aaaaaaaaaaaaaaaaaaaaaaaaaaaaaaaaaaaaaaaa'' @ [CHR 0x0A]\<rparr>"
      and oid = example_oid] c1 l1 f1 d1 v1
  have r1: "\<exists>r. git_reference_resolve example_repo_chains (example_symbolic_handle ''HEAD'')
          = (Inr r, example_repo_chains)
        \<and> git_reference_oid r = Some (TARGET_OID example_oid)"
    by simp
  from resolve_bounded[OF o[of "''refs/heads/a''"] t[of "''refs/heads/a''"], where repo = example_repo_chains
      and names = ?six] c2 l2
  have r2: "git_reference_resolve example_repo_chains (example_symbolic_handle ''refs/heads/a'')
        = (Inl GITERR_TOO_NESTED, example_repo_chains)"
    by blast
  from r1 r2 c2 c3 show ?thesis by simp
qed

subsection \<open>Claim C6\<close>








declare packed_parse_entries.simps [simp del]
declare skip_comments.simps [simp del]











text \<open>A load that finds the time of the file unchanged reads and parses nothing, and
  keeps the table; the theorem after it is about the loads that read the file.\<close>

lemma packed_load_unchanged:
  assumes "map_of (files repo) (git_buf_joinpath (path_repository repo) GIT_PACKEDREFS_FILE) = Some f"
    and "st_mtime f = packfile_time repo"
  shows "fst (packed_load repo) = Inr ()
    \<and> packfile_entries (snd (packed_load repo)) = packfile_entries repo"
  using assms
  by (simp add: packed_load_def reference_read_def git_futils_readbuffer_updated_def Let_def
      packfile_entries_def)



subsection \<open>Claim C7\<close>

text \<open>Loading the packed file and folding in the loose files touch neither the file
  system nor its log; an unlink and a commit each leave one event.\<close>

lemma same_world_refl [simp]: "same_world repo repo"
  by (simp add: same_world_def)

lemma same_world_trans: "same_world a b \<Longrightarrow> same_world b c \<Longrightarrow> same_world a c"
  by (simp add: same_world_def)

lemma packed_load_frame:
  "packed_load repo = (res, repo') \<Longrightarrow>
   files repo' = files repo \<and> events repo' = events repo \<and> same_world repo repo'"
  by (auto simp: packed_load_def Let_def same_world_def
      split: sum.splits prod.splits if_splits option.splits)

lemma dirent_loose_load_frame:
  "dirent_loose_load repo p = (res, repo') \<Longrightarrow>
   files repo' = files repo \<and> events repo' = events repo \<and> same_world repo repo'"
  by (auto simp: dirent_loose_load_def Let_def same_world_def split: sum.splits)

lemma direach_loose_load_frame:
  "direach_loose_load ps repo = (res, repo') \<Longrightarrow>
   files repo' = files repo \<and> events repo' = events repo \<and> same_world repo repo'"
proof (induction ps arbitrary: repo)
  case Nil
  then show ?case by simp
next
  case (Cons p ps)
  obtain r1 repo1 where d: "dirent_loose_load repo p = (r1, repo1)" by (cases "dirent_loose_load repo p")
  note f = dirent_loose_load_frame[OF d]
  show ?case
  proof (cases r1)
    case (Inl e)
    with Cons.prems d f show ?thesis by simp
  next
    case (Inr u)
    with Cons.prems d have "direach_loose_load ps repo1 = (res, repo')" by simp
    from Cons.IH[OF this] f show ?thesis by (auto intro: same_world_trans)
  qed
qed

lemma packed_loadloose_frame:
  "packed_loadloose repo = (res, repo') \<Longrightarrow>
   files repo' = files repo \<and> events repo' = events repo \<and> same_world repo repo'"
  by (auto simp: packed_loadloose_def Let_def split: if_splits dest: direach_loose_load_frame)

lemma p_unlink_effect:
  "p_unlink repo path = (Inr u, repo') \<Longrightarrow>
   files repo' = AList.delete path (files repo) \<and> events repo' = events repo @ [FS_UNLINK path]
   \<and> same_world repo repo'"
  by (auto simp: p_unlink_def same_world_def split: if_splits)

lemma p_unlink_failed: "p_unlink repo path = (Inl e, repo') \<Longrightarrow> repo' = repo"
  by (auto simp: p_unlink_def split: if_splits)

lemma packed_remove_loose_effect:
  "packed_remove_loose refs err repo = (res, repo') \<Longrightarrow>
   \<exists>unlinked. events repo' = events repo @ map FS_UNLINK unlinked
     \<and> files repo' = unlink_all unlinked (files repo)
     \<and> set unlinked \<subseteq> was_loose_paths repo refs
     \<and> same_world repo repo'"
proof (induction refs arbitrary: err repo)
  case Nil
  then show ?case by (auto simp: unlink_all_def intro: exI[of _ "[]"])
next
  case (Cons ref refs)
  let ?p = "git_buf_joinpath (path_repository repo) (pk_name ref)"
  have mono: "was_loose_paths repo refs \<subseteq> was_loose_paths repo (ref # refs)"
    by (auto simp: was_loose_paths_def)
  consider (unlinked) u repo1 where "GIT_PACKREF_WAS_LOOSE \<in> pk_flags ref" "git_path_exists repo ?p"
      "p_unlink repo ?p = (Inr u, repo1)" "packed_remove_loose refs err repo1 = (res, repo')"
    | (failed) e repo1 where "p_unlink repo ?p = (Inl e, repo1)"
      "packed_remove_loose refs (Inl GIT_EOSERR) repo1 = (res, repo')"
    | (skipped) "packed_remove_loose refs err repo = (res, repo')"
    using Cons.prems by (auto simp: Let_def split: if_splits prod.splits sum.splits)
  then show ?case
  proof cases
    case unlinked
    from p_unlink_effect[OF unlinked(3)] have e: "files repo1 = AList.delete ?p (files repo)"
      "events repo1 = events repo @ [FS_UNLINK ?p]" "same_world repo repo1" by simp_all
    from Cons.IH[OF unlinked(4)] obtain us where us:
      "events repo' = events repo1 @ map FS_UNLINK us" "files repo' = unlink_all us (files repo1)"
      "set us \<subseteq> was_loose_paths repo1 refs" "same_world repo1 repo'" by blast
    from e(3) have "was_loose_paths repo1 refs = was_loose_paths repo refs"
      by (simp add: was_loose_paths_def same_world_def)
    with us(3) mono have "set (?p # us) \<subseteq> was_loose_paths repo (ref # refs)"
      using unlinked(1) by (auto simp: was_loose_paths_def)
    with e us show ?thesis
      by (intro exI[of _ "?p # us"]) (auto simp: unlink_all_def intro: same_world_trans)
  next
    case failed
    from p_unlink_failed[OF failed(1)] have "repo1 = repo" .
    with Cons.IH[OF failed(2)] mono show ?thesis by blast
  next
    case skipped
    with Cons.IH[OF skipped] mono show ?thesis by blast
  qed
qed

lemma git_filebuf_commit_effect:
  "git_filebuf_commit repo file = (Inr u, repo') \<Longrightarrow>
   \<not> commit_fails repo (fb_path file)
   \<and> files repo' = AList.update (fb_path file)
         \<lparr>st_mtime = clock repo, file_data = fb_data file\<rparr> (files repo)
   \<and> events repo' = events repo @ [FS_COMMIT (fb_path file) (fb_data file)]
   \<and> same_world repo repo' \<and> packfile repo' = packfile repo"
  by (auto simp: git_filebuf_commit_def same_world_def split: if_splits)

lemma git_filebuf_commit_failed:
  "git_filebuf_commit repo file = (Inl e, repo') \<Longrightarrow> repo' = repo"
  by (auto simp: git_filebuf_commit_def split: if_splits)

lemma git_filebuf_path:
  "git_filebuf_open repo path = Inr file \<Longrightarrow> fb_path file = path"
  "git_filebuf_printf repo file str = Inr file' \<Longrightarrow> fb_path file' = fb_path file"
  by (auto simp: git_filebuf_open_def git_filebuf_printf_def split: if_splits)

lemma packed_write_ref_path:
  "packed_write_ref repo ref file = Inr file' \<Longrightarrow> fb_path file' = fb_path file"
  by (auto simp: packed_write_ref_def Let_def split: if_splits dest: git_filebuf_path(2))

lemma packed_write_loop_path:
  "packed_write_loop repo refs fb = (Inr fb', refs') \<Longrightarrow> fb_path fb' = fb_path fb"
proof (induction refs arbitrary: fb refs')
  case Nil
  then show ?case by simp
next
  case (Cons ref refs)
  then show ?case
    by (auto split: sum.splits prod.splits dest!: packed_write_ref_path)
qed

lemma packed_write_effect:
  assumes "packed_write repo = (res, repo')"
  shows "(events repo' = events repo \<and> files repo' = files repo \<and> res \<noteq> Inr ()
          \<and> same_world repo repo')
       \<or> (\<not> commit_fails repo (git_buf_joinpath (path_repository repo) GIT_PACKEDREFS_FILE)
          \<and> (\<exists>data unlinked.
               events repo' = events repo
                 @ FS_COMMIT (git_buf_joinpath (path_repository repo) GIT_PACKEDREFS_FILE) data
                   # map FS_UNLINK unlinked
               \<and> files repo' = unlink_all unlinked
                   (AList.update (git_buf_joinpath (path_repository repo) GIT_PACKEDREFS_FILE)
                      \<lparr>st_mtime = clock repo, file_data = data\<rparr> (files repo)))
          \<and> same_world repo repo')"
proof (cases "packfile repo")
  case None
  with assms show ?thesis by (auto simp: packed_write_def)
next
  case (Some tbl)
  let ?pk = "git_buf_joinpath (path_repository repo) GIT_PACKEDREFS_FILE"
  let ?plist = "git_vector_sort packed_sort tbl"
  show ?thesis
  proof (cases "git_filebuf_open repo ?pk")
    case (Inl e)
    with assms Some show ?thesis by (auto simp: packed_write_def Let_def)
  next
    case f0: (Inr file0)
    show ?thesis
    proof (cases "git_filebuf_printf repo file0 (GIT_PACKEDREFS_HEADER @ [CHR 0x0A])")
      case (Inl e)
      with assms Some f0 show ?thesis by (auto simp: packed_write_def Let_def)
    next
      case f1: (Inr file1)
      obtain r2 plist' where lp: "packed_write_loop repo ?plist file1 = (r2, plist')"
        by (cases "packed_write_loop repo ?plist file1")
      let ?repo1 = "repo\<lparr>packfile := Some (table_after tbl plist')\<rparr>"
      show ?thesis
      proof (cases r2)
        case (Inl e)
        with assms Some f0 f1 lp show ?thesis
          by (auto simp: packed_write_def Let_def same_world_def)
      next
        case f2: (Inr file2)
        from git_filebuf_path(1)[OF f0] git_filebuf_path(2)[OF f1] lp f2
        have path: "fb_path file2 = ?pk" by (auto dest: packed_write_loop_path)
        obtain r3 repo2 where cm: "git_filebuf_commit ?repo1 file2 = (r3, repo2)"
          by (cases "git_filebuf_commit ?repo1 file2")
        show ?thesis
        proof (cases r3)
          case (Inl e)
          with cm have "repo2 = ?repo1" by (auto dest: git_filebuf_commit_failed)
          with assms Some f0 f1 lp f2 cm Inl show ?thesis
            by (auto simp: packed_write_def Let_def same_world_def)
        next
          case (Inr u)
          with cm have ok: "git_filebuf_commit ?repo1 file2 = (Inr u, repo2)" by simp
          note ce = git_filebuf_commit_effect[OF ok]
          obtain r4 repo3 where rm: "packed_remove_loose plist' (Inr ()) repo2 = (r4, repo3)"
            by (cases "packed_remove_loose plist' (Inr ()) repo2")
          from packed_remove_loose_effect[OF rm] obtain us where us:
            "events repo3 = events repo2 @ map FS_UNLINK us"
            "files repo3 = unlink_all us (files repo2)" "same_world repo2 repo3" by blast
          from assms Some f0 f1 lp f2 ok rm have fin:
            "res = r4" "events repo' = events repo3" "files repo' = files repo3"
            "same_world repo3 repo'"
            by (auto simp: packed_write_def Let_def same_world_def split: option.splits)
          have w: "same_world repo repo'"
            using ce us(3) fin(4) by (auto simp: same_world_def)
          from ce path have "\<not> commit_fails repo ?pk" by simp
          moreover have "events repo' = events repo
              @ FS_COMMIT ?pk (fb_data file2) # map FS_UNLINK us"
            using fin(2) us(1) ce path by simp
          moreover have "files repo' = unlink_all us
              (AList.update ?pk \<lparr>st_mtime = clock repo, file_data = fb_data file2\<rparr> (files repo))"
            using fin(3) us(2) ce path by simp
          ultimately show ?thesis using w by blast
        qed
      qed
    qed
  qed
qed

text \<open>
  C7: \<^verbatim>\<open>git_reference_packall\<close> either leaves the file system and its log as they
  were and returns an error, or the commit of the packed-refs file did not fail and what
  it did to the file system is that commit first and unlinks after it, nothing else.
  When the commit of the packed-refs file fails, the operation returns an error and the
  file system is unchanged: every loose file is still there.
\<close>

theorem packall_unlinks_after_commit:
  assumes "git_reference_packall repo = (res, repo')"
  shows "((events repo' = events repo \<and> files repo' = files repo \<and> res \<noteq> Inr ())
          \<or> (\<not> commit_fails repo (git_buf_joinpath (path_repository repo) GIT_PACKEDREFS_FILE)
             \<and> (\<exists>data unlinked.
                  events repo' = events repo
                    @ FS_COMMIT (git_buf_joinpath (path_repository repo) GIT_PACKEDREFS_FILE) data
                      # map FS_UNLINK unlinked
                  \<and> files repo' = unlink_all unlinked
                      (AList.update (git_buf_joinpath (path_repository repo) GIT_PACKEDREFS_FILE)
                         \<lparr>st_mtime = clock repo, file_data = data\<rparr> (files repo)))))
       \<and> (commit_fails repo (git_buf_joinpath (path_repository repo) GIT_PACKEDREFS_FILE)
            \<longrightarrow> res \<noteq> Inr () \<and> files repo' = files repo \<and> events repo' = events repo)"
proof -
  obtain r1 repo1 where l1: "packed_load repo = (r1, repo1)" by (cases "packed_load repo")
  note f1 = packed_load_frame[OF l1]
  show ?thesis
  proof (cases r1)
    case (Inl e)
    with assms l1 f1 show ?thesis by (auto simp: git_reference_packall_def)
  next
    case u1: (Inr u)
    obtain r2 repo2 where l2: "packed_loadloose repo1 = (r2, repo2)"
      by (cases "packed_loadloose repo1")
    note f2 = packed_loadloose_frame[OF l2]
    show ?thesis
    proof (cases r2)
      case (Inl e)
      with assms l1 u1 l2 f1 f2 show ?thesis by (auto simp: git_reference_packall_def)
    next
      case u2: (Inr v)
      obtain r3 repo3 where l3: "packed_write repo2 = (r3, repo3)" by (cases "packed_write repo2")
      from assms l1 u1 l2 u2 l3 have fin: "res = r3" "repo' = repo3"
        by (auto simp: git_reference_packall_def split: sum.splits)
      from f1 f2 have w: "same_world repo repo2" "files repo2 = files repo"
        "events repo2 = events repo"
        by (auto intro: same_world_trans)
      then have e: "path_repository repo2 = path_repository repo" "clock repo2 = clock repo"
        "commit_fails repo2 = commit_fails repo"
        by (simp_all add: same_world_def)
      from packed_write_effect[OF l3] show ?thesis
        unfolding fin w(2,3) e by blast
    qed
  qed
qed

theorem packall_unlinks_after_commit_witness:
  "commit_fails example_repo_commit_fails ''/repo/packed-refs''
   \<and> fst (git_reference_packall example_repo_commit_fails) \<noteq> Inr ()
   \<and> files (snd (git_reference_packall example_repo_commit_fails))
       = files example_repo_commit_fails
   \<and> events (snd (git_reference_packall example_repo_two_loose))
       = [FS_COMMIT ''/repo/packed-refs''
            (''# pack-refs with: peeled '' @ [CHR 0x0A]
             @ ''aaaaaaaaaaaaaaaaaaaaaaaaaaaaaaaaaaaaaaaa refs/heads/a'' @ [CHR 0x0A]
             @ ''bbbbbbbbbbbbbbbbbbbbbbbbbbbbbbbbbbbbbbbb refs/heads/b'' @ [CHR 0x0A]),
          FS_UNLINK ''/repo/refs/heads/a'', FS_UNLINK ''/repo/refs/heads/b'']"
proof -
  have c: "commit_fails example_repo_commit_fails
      (git_buf_joinpath (path_repository example_repo_commit_fails) GIT_PACKEDREFS_FILE)"
    by code_simp
  have p: "git_buf_joinpath (path_repository example_repo_commit_fails) GIT_PACKEDREFS_FILE
      = ''/repo/packed-refs''" by code_simp
  have e: "events (snd (git_reference_packall example_repo_two_loose))
       = [FS_COMMIT ''/repo/packed-refs''
            (''# pack-refs with: peeled '' @ [CHR 0x0A]
             @ ''aaaaaaaaaaaaaaaaaaaaaaaaaaaaaaaaaaaaaaaa refs/heads/a'' @ [CHR 0x0A]
             @ ''bbbbbbbbbbbbbbbbbbbbbbbbbbbbbbbbbbbbbbbb refs/heads/b'' @ [CHR 0x0A]),
          FS_UNLINK ''/repo/refs/heads/a'', FS_UNLINK ''/repo/refs/heads/b'']"
    by code_simp
  have "git_reference_packall example_repo_commit_fails
      = (fst (git_reference_packall example_repo_commit_fails),
         snd (git_reference_packall example_repo_commit_fails))" by simp
  from packall_unlinks_after_commit[OF this] c
  have "fst (git_reference_packall example_repo_commit_fails) \<noteq> Inr ()
      \<and> files (snd (git_reference_packall example_repo_commit_fails))
          = files example_repo_commit_fails"
    by blast
  with c p e show ?thesis by simp
qed

subsection \<open>Claim C8\<close>

text \<open>\<^verbatim>\<open>strcmp\<close> is the order of strings as lists of bytes, so the sort of the
  packing list is the library's sort by name.\<close>

lemma strcmp_less: "strcmp a b < 0 \<longleftrightarrow> a < b"
  by (induction a b rule: strcmp.induct) (auto simp: less_char_def)

lemma strcmp_le: "strcmp a b \<le> 0 \<longleftrightarrow> a \<le> b"
proof -
  have "strcmp a b \<le> 0 \<longleftrightarrow> strcmp a b < 0 \<or> strcmp a b = 0" by auto
  then show ?thesis by (auto simp: strcmp_less strcmp_eq_0)
qed

lemma vector_insert_packed_sort:
  "vector_insert packed_sort x xs = insort_key pk_name x xs"
  by (induction xs) (simp_all add: packed_sort_def strcmp_le)

lemma git_vector_sort_packed_sort: "git_vector_sort packed_sort v = sort_key pk_name v"
proof -
  have "vector_insert packed_sort = insort_key pk_name"
    by (intro ext) (rule vector_insert_packed_sort)
  then show ?thesis by (simp add: git_vector_sort_def sort_key_def)
qed

lemma packing_list_strictly_sorted:
  assumes "distinct (map pk_name tbl)"
  shows "sorted_wrt (\<lambda>a b. strcmp (pk_name a) (pk_name b) < 0) (git_vector_sort packed_sort tbl)"
proof -
  have "mset (map pk_name (sort_key pk_name tbl)) = mset (map pk_name tbl)" by simp
  then have "distinct (map pk_name (sort_key pk_name tbl))"
    using assms by (metis mset_eq_imp_distinct_iff)
  moreover have "sorted (map pk_name (sort_key pk_name tbl))" by simp
  ultimately have "sorted_wrt (<) (map pk_name (sort_key pk_name tbl))"
    by (simp add: strict_sorted_iff)
  then show ?thesis
    by (simp add: git_vector_sort_packed_sort sorted_wrt_map strcmp_less)
qed

lemma packing_list_order_independent:
  assumes "distinct (map pk_name tbl)" and "distinct (map pk_name tbl2)" and "set tbl2 = set tbl"
  shows "git_vector_sort packed_sort tbl2 = git_vector_sort packed_sort tbl"
proof -
  from assms have d: "distinct tbl" "distinct tbl2" by (auto simp: distinct_map)
  with assms(3) have m: "mset tbl2 = mset tbl" by (simp add: set_eq_iff_mset_eq_distinct)
  from assms(2) have i: "inj_on pk_name (set tbl2)" by (simp add: distinct_map)
  have "sort_key pk_name tbl2 = sort_key pk_name tbl"
    by (rule sort_key_inj_key_eq[OF _ i]) (simp_all add: m)
  then show ?thesis by (simp add: git_vector_sort_packed_sort)
qed

lemma packed_find_peel_keeps:
  "packed_find_peel repo ref = Inr ref' \<Longrightarrow>
   pk_name ref' = pk_name ref \<and> packed_find_peel repo ref' = Inr ref'"
  by (auto simp: packed_find_peel_def split: if_splits option.splits)

lemma packed_write_ref_text:
  "packed_write_ref repo ref fb = Inr fb' \<Longrightarrow> fb' = fb\<lparr>fb_data := fb_data fb @ packed_ref_text ref\<rparr>"
  by (auto simp: packed_write_ref_def packed_ref_text_def git_filebuf_printf_def Let_def
      split: if_splits)

lemma packed_write_loop_text:
  "packed_write_loop repo refs fb = (Inr fb', refs') \<Longrightarrow>
   fb' = fb\<lparr>fb_data := fb_data fb @ concat (map packed_ref_text refs')\<rparr>
   \<and> map pk_name refs' = map pk_name refs
   \<and> packed_write_loop repo refs' fb = (Inr fb', refs')"
proof (induction refs arbitrary: fb refs')
  case Nil
  then show ?case by simp
next
  case (Cons ref refs)
  from Cons.prems obtain ref1 where p: "packed_find_peel repo ref = Inr ref1"
    by (auto split: sum.splits)
  from Cons.prems p obtain fb1 where w: "packed_write_ref repo ref1 fb = Inr fb1"
    by (auto split: sum.splits)
  from Cons.prems p w obtain rest' where
    l: "packed_write_loop repo refs fb1 = (Inr fb', rest')" and r: "refs' = ref1 # rest'"
    by (auto split: sum.splits prod.splits)
  note k = packed_find_peel_keeps[OF p]
  note t = packed_write_ref_text[OF w]
  from Cons.IH[OF l] have ih: "fb' = fb1\<lparr>fb_data := fb_data fb1 @ concat (map packed_ref_text rest')\<rparr>"
    "map pk_name rest' = map pk_name refs" "packed_write_loop repo rest' fb1 = (Inr fb', rest')"
    by simp_all
  have "packed_write_loop repo (ref1 # rest') fb = (Inr fb', ref1 # rest')"
    using k w ih(3) by simp
  with ih(1,2) k t r show ?case by simp
qed

lemma packed_write_loop_world:
  "objects repo' = objects repo \<Longrightarrow> write_fails repo' = write_fails repo \<Longrightarrow>
   packed_write_loop repo' refs fb = packed_write_loop repo refs fb"
proof (induction refs arbitrary: fb)
  case Nil
  then show ?case by simp
next
  case (Cons ref refs)
  have a: "packed_find_peel repo' ref = packed_find_peel repo ref"
    using Cons.prems by (simp add: packed_find_peel_def)
  have b: "packed_write_ref repo' r f = packed_write_ref repo r f" for r f
    using Cons.prems by (simp add: packed_write_ref_def git_filebuf_printf_def Let_def)
  show ?case using Cons.IH[OF Cons.prems] by (simp add: a b split: sum.splits prod.splits)
qed

lemma table_after_set:
  assumes "distinct (map pk_name written)" and "set (map pk_name written) = set (map pk_name tbl)"
  shows "set (table_after tbl written) = set written"
proof
  show "set (table_after tbl written) \<subseteq> set written"
  proof
    fix x assume "x \<in> set (table_after tbl written)"
    then obtain r where r: "r \<in> set tbl"
      and x: "x = (case find (\<lambda>u. pk_name u = pk_name r) written of None \<Rightarrow> r | Some u \<Rightarrow> u)"
      by (auto simp: table_after_def)
    from r assms(2) obtain u where "u \<in> set written" "pk_name u = pk_name r" by force
    then obtain v where "find (\<lambda>u. pk_name u = pk_name r) written = Some v"
      by (cases "find (\<lambda>u. pk_name u = pk_name r) written") (auto simp: find_None_iff)
    with x show "x \<in> set written" by (auto simp: find_Some_iff)
  qed
next
  show "set written \<subseteq> set (table_after tbl written)"
  proof
    fix u assume u: "u \<in> set written"
    with assms(2) obtain r where r: "r \<in> set tbl" "pk_name r = pk_name u" by force
    from u obtain v where f: "find (\<lambda>w. pk_name w = pk_name r) written = Some v"
      using r(2) by (cases "find (\<lambda>w. pk_name w = pk_name r) written") (auto simp: find_None_iff)
    then have "v \<in> set written" "pk_name v = pk_name u" using r(2) by (auto simp: find_Some_iff)
    with assms(1) u have "v = u" by (auto simp: distinct_map inj_on_def)
    with f r(1) show "u \<in> set (table_after tbl written)"
      by (force simp: table_after_def)
  qed
qed

lemma table_after_names: "map pk_name (table_after tbl written) = map pk_name tbl"
  by (auto simp: table_after_def find_Some_iff split: option.splits)

lemma packing_list_after_write:
  assumes d: "distinct (map pk_name tbl)"
    and w: "map pk_name written = map pk_name (git_vector_sort packed_sort tbl)"
  shows "git_vector_sort packed_sort (table_after tbl written) = written"
proof -
  from packing_list_strictly_sorted[OF d]
  have "sorted_wrt (<) (map pk_name (git_vector_sort packed_sort tbl))"
    by (simp add: sorted_wrt_map strcmp_less)
  with w have s: "sorted_wrt (<) (map pk_name written)" by simp
  then have sd: "sorted (map pk_name written)" "distinct (map pk_name written)"
    by (simp_all add: strict_sorted_iff)
  have "set (map pk_name written) = set (map pk_name tbl)"
    using w by (simp add: git_vector_sort_packed_sort)
  from table_after_set[OF sd(2) this] have st: "set (table_after tbl written) = set written" .
  from d have "distinct (map pk_name (table_after tbl written))" by (simp add: table_after_names)
  then have dt: "distinct (table_after tbl written)" by (simp add: distinct_map)
  from sd(2) have dw: "distinct written" by (simp add: distinct_map)
  from st dt dw have m: "mset (table_after tbl written) = mset written"
    by (simp add: set_eq_iff_mset_eq_distinct)
  from sd(2) st have i: "inj_on pk_name (set (table_after tbl written))"
    by (simp add: distinct_map)
  have "sort_key pk_name (table_after tbl written) = written"
    by (rule sort_key_inj_key_eq[OF m i sd(1)])
  then show ?thesis by (simp add: git_vector_sort_packed_sort)
qed

text \<open>The names in the table stay distinct: an insertion replaces the entry of the same
  name, and a write changes no name.\<close>

lemma git_hashtable_insert_distinct:
  "distinct (map pk_name tbl) \<Longrightarrow> distinct (map pk_name (git_hashtable_insert tbl ref))"
  by (auto simp: git_hashtable_insert_def strcmp_eq_0 distinct_map_filter)

lemma packed_parse_entries_distinct:
  "packed_parse_entries buf tbl = Inr tbl' \<Longrightarrow> distinct (map pk_name tbl) \<Longrightarrow>
   distinct (map pk_name tbl')"
proof (induction buf tbl rule: packed_parse_entries.induct)
  case (1 buffer_start tbl)
  show ?case
  proof (cases "buffer_start = []")
    case True
    with "1.prems" show ?thesis by (simp add: packed_parse_entries.simps[of "[]"])
  next
    case False
    from "1.prems"(1) False obtain ref rest where
      po: "packed_parse_oid buffer_start = Inr (ref, rest)"
      by (subst (asm) packed_parse_entries.simps) (auto split: sum.splits)
    from "1.prems"(1) False po obtain ref' rest' where
      pe: "(if peek rest = CHR ''^'' then packed_parse_peel (Some ref) rest else Inr (ref, rest))
           = Inr (ref', rest')"
      by (subst (asm) packed_parse_entries.simps) (auto split: sum.splits)
    from "1.prems"(1) False po pe have rec:
      "packed_parse_entries rest' (git_hashtable_insert tbl ref') = Inr tbl'"
      by (subst (asm) packed_parse_entries.simps) (auto split: sum.splits)
    from "1.IH"[OF False po refl pe refl rec] "1.prems"(2) show ?thesis
      by (simp add: git_hashtable_insert_distinct)
  qed
qed

lemma packed_load_distinct:
  "packed_load repo = (res, repo') \<Longrightarrow> distinct (map pk_name (packfile_entries repo)) \<Longrightarrow>
   distinct (map pk_name (packfile_entries repo'))"
  by (auto simp: packed_load_def Let_def packfile_entries_def
      split: sum.splits prod.splits if_splits option.splits
      dest: packed_parse_entries_distinct)

lemma direach_loose_load_distinct:
  "direach_loose_load ps repo = (res, repo') \<Longrightarrow> distinct (map pk_name (packfile_entries repo)) \<Longrightarrow>
   distinct (map pk_name (packfile_entries repo'))"
proof (induction ps arbitrary: repo)
  case Nil
  then show ?case by simp
next
  case (Cons p ps)
  obtain r1 repo1 where d: "dirent_loose_load repo p = (r1, repo1)"
    by (cases "dirent_loose_load repo p")
  from d Cons.prems(2) have d1: "distinct (map pk_name (packfile_entries repo1))"
    by (auto simp: dirent_loose_load_def Let_def packfile_entries_def
        split: sum.splits intro: git_hashtable_insert_distinct)
  show ?case
  proof (cases r1)
    case (Inl e)
    with Cons.prems d d1 show ?thesis by simp
  next
    case (Inr u)
    with Cons.prems d have "direach_loose_load ps repo1 = (res, repo')" by simp
    from Cons.IH[OF this d1] show ?thesis .
  qed
qed

lemma p_unlink_packfile:
  "p_unlink (repo\<lparr>packfile := X\<rparr>) path
     = (fst (p_unlink repo path), (snd (p_unlink repo path))\<lparr>packfile := X\<rparr>)"
  by (simp add: p_unlink_def)

lemma packed_remove_loose_packfile:
  "packed_remove_loose refs err (repo\<lparr>packfile := X\<rparr>)
     = (fst (packed_remove_loose refs err repo),
        (snd (packed_remove_loose refs err repo))\<lparr>packfile := X\<rparr>)"
proof (induction refs arbitrary: err repo)
  case Nil
  then show ?case by simp
next
  case (Cons ref refs)
  show ?case
    by (simp add: Let_def git_path_exists_def p_unlink_packfile Cons.IH
        split: prod.splits sum.splits)
qed

lemma packed_remove_loose_keeps_packfile:
  "packfile (snd (packed_remove_loose refs err repo)) = packfile repo"
proof -
  have "packed_remove_loose refs err repo
      = packed_remove_loose refs err (repo\<lparr>packfile := packfile repo\<rparr>)" by simp
  also have "\<dots> = (fst (packed_remove_loose refs err repo),
        (snd (packed_remove_loose refs err repo))\<lparr>packfile := packfile repo\<rparr>)"
    by (rule packed_remove_loose_packfile)
  finally have "snd (packed_remove_loose refs err repo)
      = (snd (packed_remove_loose refs err repo))\<lparr>packfile := packfile repo\<rparr>"
    by (metis snd_conv)
  then show ?thesis by (metis git_repository.select_convs(2) git_repository.surjective
        git_repository.update_convs(2))
qed

lemma git_filebuf_commit_packfile:
  "git_filebuf_commit (repo\<lparr>packfile := X\<rparr>) fb
     = (fst (git_filebuf_commit repo fb), (snd (git_filebuf_commit repo fb))\<lparr>packfile := X\<rparr>)"
  by (simp add: git_filebuf_commit_def)

text \<open>What \<^verbatim>\<open>packed_write\<close> returns and logs, in terms of its packing list.\<close>

lemma packed_write_outcome:
  assumes "packfile repo = Some tbl"
  shows "(fst (packed_write repo), events (snd (packed_write repo))) =
     (case git_filebuf_open repo (git_buf_joinpath (path_repository repo) GIT_PACKEDREFS_FILE) of
        Inl e \<Rightarrow> (Inl e, events repo)
      | Inr fb \<Rightarrow>
         (case git_filebuf_printf repo fb (GIT_PACKEDREFS_HEADER @ [CHR 0x0A]) of
            Inl e \<Rightarrow> (Inl e, events repo)
          | Inr fb \<Rightarrow>
             (case packed_write_loop repo (git_vector_sort packed_sort tbl) fb of
                (Inl e, written) \<Rightarrow> (Inl e, events repo)
              | (Inr fb, written) \<Rightarrow>
                 (case git_filebuf_commit repo fb of
                    (Inl e, repo1) \<Rightarrow> (Inl e, events repo1)
                  | (Inr u, repo1) \<Rightarrow>
                      (case packed_remove_loose written (Inr ()) repo1 of
                         (r, repo2) \<Rightarrow> (r, events repo2))))))"
  using assms
  by (auto simp: packed_write_def Let_def git_filebuf_commit_packfile packed_remove_loose_packfile
      split: sum.splits prod.splits option.splits)

lemma packed_write_order_independent:
  assumes "packfile repo = Some tbl" and "distinct (map pk_name tbl)"
    and "distinct (map pk_name tbl2)" and "set tbl2 = set tbl"
  shows "fst (packed_write (repo\<lparr>packfile := Some tbl2\<rparr>)) = fst (packed_write repo)
       \<and> events (snd (packed_write (repo\<lparr>packfile := Some tbl2\<rparr>))) = events (snd (packed_write repo))"
proof -
  let ?repo2 = "repo\<lparr>packfile := Some tbl2\<rparr>"
  have s: "git_vector_sort packed_sort tbl2 = git_vector_sort packed_sort tbl"
    using assms(2,3,4) by (rule packing_list_order_independent)
  have o: "git_filebuf_open ?repo2 p = git_filebuf_open repo p" for p
    by (simp add: git_filebuf_open_def)
  have w: "git_filebuf_printf ?repo2 fb str = git_filebuf_printf repo fb str" for fb str
    by (simp add: git_filebuf_printf_def)
  have l: "packed_write_loop ?repo2 refs fb = packed_write_loop repo refs fb" for refs fb
    by (rule packed_write_loop_world) simp_all
  have p2: "packfile ?repo2 = Some tbl2" by simp
  have "(fst (packed_write ?repo2), events (snd (packed_write ?repo2)))
      = (fst (packed_write repo), events (snd (packed_write repo)))"
    unfolding packed_write_outcome[OF assms(1)] packed_write_outcome[OF p2] s o w l
    by (auto simp: git_filebuf_commit_packfile packed_remove_loose_packfile
        split: sum.splits prod.splits)
  then show ?thesis by simp
qed

lemma packed_write_run:
  assumes "packfile repo = Some tbl"
    and "\<not> open_fails repo (git_buf_joinpath (path_repository repo) GIT_PACKEDREFS_FILE)"
    and "\<not> write_fails repo (git_buf_joinpath (path_repository repo) GIT_PACKEDREFS_FILE)"
    and "\<not> commit_fails repo (git_buf_joinpath (path_repository repo) GIT_PACKEDREFS_FILE)"
    and "packed_write_loop repo (git_vector_sort packed_sort tbl)
           \<lparr>fb_path = git_buf_joinpath (path_repository repo) GIT_PACKEDREFS_FILE,
            fb_data = GIT_PACKEDREFS_HEADER @ [CHR 0x0A]\<rparr> = (Inr fb', written)"
  shows "\<exists>unlinked. events (snd (packed_write repo))
           = events repo @ FS_COMMIT (git_buf_joinpath (path_repository repo) GIT_PACKEDREFS_FILE)
                             (fb_data fb') # map FS_UNLINK unlinked
         \<and> packfile (snd (packed_write repo)) = Some (table_after tbl written)
         \<and> same_world repo (snd (packed_write repo))"
proof -
  let ?pk = "git_buf_joinpath (path_repository repo) GIT_PACKEDREFS_FILE"
  let ?repo1 = "repo\<lparr>packfile := Some (table_after tbl written)\<rparr>"
  from packed_write_loop_path[OF assms(5)] have path: "fb_path fb' = ?pk" by simp
  obtain u repo2 where cm: "git_filebuf_commit ?repo1 fb' = (Inr u, repo2)"
    using assms(4) path by (simp add: git_filebuf_commit_def)
  note ce = git_filebuf_commit_effect[OF cm]
  obtain r4 repo3 where rm: "packed_remove_loose written (Inr ()) repo2 = (r4, repo3)"
    by (cases "packed_remove_loose written (Inr ()) repo2")
  from packed_remove_loose_effect[OF rm] obtain us where us:
    "events repo3 = events repo2 @ map FS_UNLINK us" "same_world repo2 repo3" by blast
  from packed_remove_loose_keeps_packfile[of written "Inr ()" repo2] rm
  have pf: "packfile repo3 = packfile repo2" by simp
  have pw: "packed_write repo = (r4, case map_of (files repo3) ?pk of None \<Rightarrow> repo3
              | Some st \<Rightarrow> repo3\<lparr>packfile_time := st_mtime st\<rparr>)"
    using assms cm rm
    by (simp add: packed_write_def Let_def git_filebuf_open_def git_filebuf_printf_def)
  have "events (snd (packed_write repo)) = events repo @ FS_COMMIT ?pk (fb_data fb') # map FS_UNLINK us"
    using pw us(1) ce path by (simp split: option.splits)
  moreover have "packfile (snd (packed_write repo)) = Some (table_after tbl written)"
    using pw pf ce by (simp split: option.splits)
  moreover have "same_world repo (snd (packed_write repo))"
    using pw us(2) ce by (auto simp: same_world_def split: option.splits)
  ultimately show ?thesis by blast
qed

lemma packed_write_committed:
  assumes "packfile repo = Some tbl" and "events (snd (packed_write repo)) \<noteq> events repo"
  shows "\<not> open_fails repo (git_buf_joinpath (path_repository repo) GIT_PACKEDREFS_FILE)
       \<and> \<not> write_fails repo (git_buf_joinpath (path_repository repo) GIT_PACKEDREFS_FILE)
       \<and> \<not> commit_fails repo (git_buf_joinpath (path_repository repo) GIT_PACKEDREFS_FILE)
       \<and> (\<exists>fb' written. packed_write_loop repo (git_vector_sort packed_sort tbl)
           \<lparr>fb_path = git_buf_joinpath (path_repository repo) GIT_PACKEDREFS_FILE,
            fb_data = GIT_PACKEDREFS_HEADER @ [CHR 0x0A]\<rparr> = (Inr fb', written))"
proof -
  let ?pk = "git_buf_joinpath (path_repository repo) GIT_PACKEDREFS_FILE"
  let ?fb0 = "\<lparr>fb_path = ?pk, fb_data = GIT_PACKEDREFS_HEADER @ [CHR 0x0A]\<rparr>"
  from packed_write_outcome[OF assms(1)] have ev:
    "events (snd (packed_write repo)) = snd
     (case git_filebuf_open repo ?pk of
        Inl e \<Rightarrow> (Inl e, events repo)
      | Inr fb \<Rightarrow>
         (case git_filebuf_printf repo fb (GIT_PACKEDREFS_HEADER @ [CHR 0x0A]) of
            Inl e \<Rightarrow> (Inl e, events repo)
          | Inr fb \<Rightarrow>
             (case packed_write_loop repo (git_vector_sort packed_sort tbl) fb of
                (Inl e, written) \<Rightarrow> (Inl e, events repo)
              | (Inr fb, written) \<Rightarrow>
                 (case git_filebuf_commit repo fb of
                    (Inl e, repo1) \<Rightarrow> (Inl e, events repo1)
                  | (Inr u, repo1) \<Rightarrow>
                      (case packed_remove_loose written (Inr ()) repo1 of
                         (r, repo2) \<Rightarrow> (r, events repo2))))))"
    by (metis snd_conv)
  have o: "\<not> open_fails repo ?pk"
    using assms(2) unfolding ev by (auto simp: git_filebuf_open_def)
  have w: "\<not> write_fails repo ?pk"
    using assms(2) o unfolding ev by (auto simp: git_filebuf_open_def git_filebuf_printf_def)
  obtain r written where lp: "packed_write_loop repo (git_vector_sort packed_sort tbl) ?fb0 = (r, written)"
    by (cases "packed_write_loop repo (git_vector_sort packed_sort tbl) ?fb0")
  from assms(2) o w lp obtain fb' where r: "r = Inr fb'"
    unfolding ev by (cases r) (auto simp: git_filebuf_open_def git_filebuf_printf_def)
  from packed_write_loop_path[OF lp[unfolded r]] have path: "fb_path fb' = ?pk" by simp
  have c: "\<not> commit_fails repo ?pk"
    using assms(2) o w lp r path unfolding ev
    by (auto simp: git_filebuf_open_def git_filebuf_printf_def git_filebuf_commit_def)
  from o w c lp r show ?thesis by blast
qed

text \<open>
  C8: for a cache whose entries have distinct names (the keys of the table). When
  \<^verbatim>\<open>packed_write\<close> commits the file, the bytes committed are the header line and the
  text of the entries in an order strictly increasing under \<^verbatim>\<open>strcmp\<close> on the names,
  the names being those of the cache; writing the cache again, as the first write left it,
  commits the same bytes. The result and what is done to the file system do not depend on
  the order in which the table enumerates its entries: a table with the same entries in
  another order gives the same.
\<close>

theorem packed_write_sorted_deterministic:
  assumes "packfile repo = Some tbl" and "distinct (map pk_name tbl)"
  shows "(events (snd (packed_write repo)) \<noteq> events repo \<longrightarrow>
           (\<exists>written unlinked.
              events (snd (packed_write repo)) = events repo
                @ FS_COMMIT (git_buf_joinpath (path_repository repo) GIT_PACKEDREFS_FILE)
                    (GIT_PACKEDREFS_HEADER @ [CHR 0x0A] @ concat (map packed_ref_text written))
                  # map FS_UNLINK unlinked
              \<and> sorted_wrt (\<lambda>a b. strcmp (pk_name a) (pk_name b) < 0) written
              \<and> set (map pk_name written) = set (map pk_name tbl)
              \<and> (\<exists>unlinked2.
                   events (snd (packed_write (snd (packed_write repo))))
                   = events (snd (packed_write repo))
                     @ FS_COMMIT (git_buf_joinpath (path_repository repo) GIT_PACKEDREFS_FILE)
                         (GIT_PACKEDREFS_HEADER @ [CHR 0x0A] @ concat (map packed_ref_text written))
                       # map FS_UNLINK unlinked2)))
       \<and> (distinct (map pk_name tbl2) \<and> set tbl2 = set tbl \<longrightarrow>
            fst (packed_write (repo\<lparr>packfile := Some tbl2\<rparr>)) = fst (packed_write repo)
            \<and> events (snd (packed_write (repo\<lparr>packfile := Some tbl2\<rparr>)))
                = events (snd (packed_write repo)))"
proof -
  let ?pk = "git_buf_joinpath (path_repository repo) GIT_PACKEDREFS_FILE"
  let ?fb0 = "\<lparr>fb_path = ?pk, fb_data = GIT_PACKEDREFS_HEADER @ [CHR 0x0A]\<rparr>"
  let ?repo1 = "snd (packed_write repo)"
  have p1: "\<exists>written unlinked.
      events ?repo1 = events repo
        @ FS_COMMIT ?pk (GIT_PACKEDREFS_HEADER @ [CHR 0x0A] @ concat (map packed_ref_text written))
          # map FS_UNLINK unlinked
      \<and> sorted_wrt (\<lambda>a b. strcmp (pk_name a) (pk_name b) < 0) written
      \<and> set (map pk_name written) = set (map pk_name tbl)
      \<and> (\<exists>unlinked2. events (snd (packed_write ?repo1)) = events ?repo1
            @ FS_COMMIT ?pk (GIT_PACKEDREFS_HEADER @ [CHR 0x0A] @ concat (map packed_ref_text written))
              # map FS_UNLINK unlinked2)"
    if ch: "events ?repo1 \<noteq> events repo"
  proof -
    from packed_write_committed[OF assms(1) ch] obtain fb' written where
      o: "\<not> open_fails repo ?pk" and w: "\<not> write_fails repo ?pk" and c: "\<not> commit_fails repo ?pk"
      and lp: "packed_write_loop repo (git_vector_sort packed_sort tbl) ?fb0 = (Inr fb', written)"
      by blast
    from packed_write_loop_text[OF lp] have
      bytes: "fb_data fb' = GIT_PACKEDREFS_HEADER @ [CHR 0x0A] @ concat (map packed_ref_text written)"
      and nm: "map pk_name written = map pk_name (git_vector_sort packed_sort tbl)"
      and again: "packed_write_loop repo written ?fb0 = (Inr fb', written)"
      by simp_all
    from packed_write_run[OF assms(1) o w c lp] obtain unlinked where
      ev: "events ?repo1 = events repo @ FS_COMMIT ?pk (fb_data fb') # map FS_UNLINK unlinked"
      and pf: "packfile ?repo1 = Some (table_after tbl written)"
      and sw: "same_world repo ?repo1" by blast
    from packing_list_strictly_sorted[OF assms(2)]
    have "sorted_wrt (\<lambda>x y. strcmp x y < 0) (map pk_name (git_vector_sort packed_sort tbl))"
      by (simp add: sorted_wrt_map)
    then have "sorted_wrt (\<lambda>x y. strcmp x y < 0) (map pk_name written)"
      by (simp only: nm)
    then have srt: "sorted_wrt (\<lambda>a b. strcmp (pk_name a) (pk_name b) < 0) written"
      by (simp add: sorted_wrt_map)
    have st: "set (map pk_name written) = set (map pk_name tbl)"
      using nm by (simp add: git_vector_sort_packed_sort)
    from sw have e: "path_repository ?repo1 = path_repository repo"
      "open_fails ?repo1 = open_fails repo" "write_fails ?repo1 = write_fails repo"
      "commit_fails ?repo1 = commit_fails repo" "objects ?repo1 = objects repo"
      by (simp_all add: same_world_def)
    have pl: "git_vector_sort packed_sort (table_after tbl written) = written"
      using assms(2) nm by (rule packing_list_after_write)
    have lp1: "packed_write_loop ?repo1 (git_vector_sort packed_sort (table_after tbl written))
        \<lparr>fb_path = git_buf_joinpath (path_repository ?repo1) GIT_PACKEDREFS_FILE,
         fb_data = GIT_PACKEDREFS_HEADER @ [CHR 0x0A]\<rparr> = (Inr fb', written)"
      unfolding pl e(1) using again packed_write_loop_world[OF e(5) e(3)] by simp
    have o1: "\<not> open_fails ?repo1 (git_buf_joinpath (path_repository ?repo1) GIT_PACKEDREFS_FILE)"
      and w1: "\<not> write_fails ?repo1 (git_buf_joinpath (path_repository ?repo1) GIT_PACKEDREFS_FILE)"
      and c1: "\<not> commit_fails ?repo1 (git_buf_joinpath (path_repository ?repo1) GIT_PACKEDREFS_FILE)"
      using o w c by (simp_all add: e)
    from packed_write_run[OF pf o1 w1 c1 lp1] obtain unlinked2 where
      "events (snd (packed_write ?repo1)) = events ?repo1
          @ FS_COMMIT (git_buf_joinpath (path_repository ?repo1) GIT_PACKEDREFS_FILE) (fb_data fb')
            # map FS_UNLINK unlinked2"
      by blast
    then have ev2: "events (snd (packed_write ?repo1)) = events ?repo1
          @ FS_COMMIT ?pk (GIT_PACKEDREFS_HEADER @ [CHR 0x0A] @ concat (map packed_ref_text written))
            # map FS_UNLINK unlinked2"
      by (simp only: e bytes)
    from ev have ev1: "events ?repo1 = events repo
        @ FS_COMMIT ?pk (GIT_PACKEDREFS_HEADER @ [CHR 0x0A] @ concat (map packed_ref_text written))
          # map FS_UNLINK unlinked"
      by (simp only: bytes)
    from ev1 srt st ev2 show ?thesis by blast
  qed
  have p2: "fst (packed_write (repo\<lparr>packfile := Some tbl2\<rparr>)) = fst (packed_write repo)
            \<and> events (snd (packed_write (repo\<lparr>packfile := Some tbl2\<rparr>)))
                = events (snd (packed_write repo))"
    if "distinct (map pk_name tbl2) \<and> set tbl2 = set tbl"
    using that packed_write_order_independent[OF assms, of tbl2] by blast
  from p1 p2 show ?thesis by blast
qed

theorem packed_write_sorted_deterministic_witness:
  "events (snd (packed_write example_repo_cached))
     = [FS_COMMIT ''/repo/packed-refs''
          (''# pack-refs with: peeled '' @ [CHR 0x0A]
           @ ''aaaaaaaaaaaaaaaaaaaaaaaaaaaaaaaaaaaaaaaa refs/heads/a'' @ [CHR 0x0A]
           @ ''bbbbbbbbbbbbbbbbbbbbbbbbbbbbbbbbbbbbbbbb refs/heads/b'' @ [CHR 0x0A])]
   \<and> events (snd (packed_write (example_repo_cached\<lparr>packfile :=
          Some [example_entry 170 ''refs/heads/a'', example_entry 187 ''refs/heads/b'']\<rparr>)))
     = events (snd (packed_write example_repo_cached))
   \<and> (\<exists>written unlinked unlinked2.
        events (snd (packed_write (snd (packed_write example_repo_cached))))
        = events example_repo_cached
          @ FS_COMMIT ''/repo/packed-refs''
              (GIT_PACKEDREFS_HEADER @ [CHR 0x0A] @ concat (map packed_ref_text written))
            # map FS_UNLINK unlinked
          @ FS_COMMIT ''/repo/packed-refs''
              (GIT_PACKEDREFS_HEADER @ [CHR 0x0A] @ concat (map packed_ref_text written))
            # map FS_UNLINK unlinked2)"
proof -
  let ?tbl = "[example_entry 187 ''refs/heads/b'', example_entry 170 ''refs/heads/a'']"
  let ?tbl2 = "[example_entry 170 ''refs/heads/a'', example_entry 187 ''refs/heads/b'']"
  have a1: "packfile example_repo_cached = Some ?tbl" by code_simp
  have a2: "distinct (map pk_name ?tbl)" by code_simp
  have a3: "distinct (map pk_name ?tbl2)" by code_simp
  have a4: "set ?tbl2 = set ?tbl" by auto
  have e: "events (snd (packed_write example_repo_cached))
     = [FS_COMMIT ''/repo/packed-refs''
          (''# pack-refs with: peeled '' @ [CHR 0x0A]
           @ ''aaaaaaaaaaaaaaaaaaaaaaaaaaaaaaaaaaaaaaaa refs/heads/a'' @ [CHR 0x0A]
           @ ''bbbbbbbbbbbbbbbbbbbbbbbbbbbbbbbbbbbbbbbb refs/heads/b'' @ [CHR 0x0A])]"
    by code_simp
  have n: "events example_repo_cached = []" by code_simp
  have p: "git_buf_joinpath (path_repository example_repo_cached) GIT_PACKEDREFS_FILE
      = ''/repo/packed-refs''" by code_simp
  from e n have ch: "events (snd (packed_write example_repo_cached)) \<noteq> events example_repo_cached"
    by simp
  note t = packed_write_sorted_deterministic[OF a1 a2, where ?tbl2.0 = ?tbl2]
  from t a3 a4 have r2: "events (snd (packed_write (example_repo_cached\<lparr>packfile := Some ?tbl2\<rparr>)))
     = events (snd (packed_write example_repo_cached))"
    by blast
  from t ch obtain written unlinked unlinked2 where
    "events (snd (packed_write example_repo_cached)) = events example_repo_cached
        @ FS_COMMIT ''/repo/packed-refs''
            (GIT_PACKEDREFS_HEADER @ [CHR 0x0A] @ concat (map packed_ref_text written))
          # map FS_UNLINK unlinked"
    "events (snd (packed_write (snd (packed_write example_repo_cached))))
       = events (snd (packed_write example_repo_cached))
         @ FS_COMMIT ''/repo/packed-refs''
             (GIT_PACKEDREFS_HEADER @ [CHR 0x0A] @ concat (map packed_ref_text written))
           # map FS_UNLINK unlinked2"
    unfolding p by blast
  then have "\<exists>written unlinked unlinked2.
        events (snd (packed_write (snd (packed_write example_repo_cached))))
        = events example_repo_cached
          @ FS_COMMIT ''/repo/packed-refs''
              (GIT_PACKEDREFS_HEADER @ [CHR 0x0A] @ concat (map packed_ref_text written))
            # map FS_UNLINK unlinked
          @ FS_COMMIT ''/repo/packed-refs''
              (GIT_PACKEDREFS_HEADER @ [CHR 0x0A] @ concat (map packed_ref_text written))
            # map FS_UNLINK unlinked2"
    by (metis append.assoc append_Cons)
  with e r2 show ?thesis by blast
qed

end
